theory Spec2Isabelle
  imports Main "HOL-Library.Sublist" "HOL-Library.Word"
begin

section \<open>JavaScript strings, arrays and numbers\<close>

text \<open>
  The extension is TypeScript. Strings are modelled as \<open>string\<close> (a list of code
  units; nothing below depends on how many there are), arrays as lists, array lengths and
  line numbers as \<open>nat\<close>: they are non-negative integers, and JavaScript numbers are
  exact below \<open>2^53\<close>. An array read \<open>a[i]\<close> yields \<open>undefined\<close> out of range:
  \<open>nth_opt\<close> returns \<open>None\<close> there.
\<close>

abbreviation newline :: char where
  "newline \<equiv> CHR 0x0A"

text \<open>\<open>s.split('\n')\<close>: never empty, \<open>"".split('\n')\<close> is \<open>[""]\<close>.\<close>

fun split_lines :: "string \<Rightarrow> string list" where
  "split_lines [] = [[]]"
| "split_lines (c # cs) =
     (if c = newline then [] # split_lines cs
      else (case split_lines cs of
              [] \<Rightarrow> [[c]]
            | l # ls \<Rightarrow> (c # l) # ls))"

text \<open>\<open>a.join('\n')\<close>.\<close>

fun join_lines :: "string list \<Rightarrow> string" where
  "join_lines [] = []"
| "join_lines [l] = l"
| "join_lines (l # m # ls) = l @ newline # join_lines (m # ls)"

definition nth_opt :: "'a list \<Rightarrow> nat \<Rightarrow> 'a option" where
  "nth_opt xs i = (if i < length xs then Some (xs ! i) else None)"

text \<open>A template literal \<open>`${x}`\<close> prints \<open>undefined\<close> as the word.\<close>

fun template :: "string option \<Rightarrow> string" where
  "template None = ''undefined''"
| "template (Some l) = l"

text \<open>\<open>line.startsWith(c)\<close> for a one-character \<open>c\<close>, the only use in the source.\<close>

definition startsWith :: "string \<Rightarrow> char \<Rightarrow> bool" where
  "startsWith line c = (case line of [] \<Rightarrow> False | d # _ \<Rightarrow> d = c)"

text \<open>The regular expression class \<open>\d\<close> is the ASCII digits.\<close>

definition is_digit :: "char \<Rightarrow> bool" where
  "is_digit c = (48 \<le> (of_char c :: nat) \<and> (of_char c :: nat) \<le> 57)"

definition digit_char :: "nat \<Rightarrow> char" where
  "digit_char d = char_of (48 + d)"

text \<open>A non-negative integer printed in a template literal: its decimal digits.\<close>

fun show_nat :: "nat \<Rightarrow> string" where
  "show_nat n = (if n < 10 then [digit_char n] else show_nat (n div 10) @ [digit_char (n mod 10)])"

declare show_nat.simps [simp del]

text \<open>
  \<open>parseInt\<close> on a non-empty string of digits, the only strings the source passes
  to it (the capture groups of \<open>\d+\<close>, or \<open>'1'\<close> in place of an empty one): the
  number they write in base ten, leading zeros allowed. Beyond \<open>2^53\<close> JavaScript
  rounds that number to a double and this definition does not; the line numbers and counts
  of a diff of two texts stay below, and the properties of the parser on arbitrary texts
  compare two runs of it on the same numerals.
\<close>

definition parseInt :: "string \<Rightarrow> nat" where
  "parseInt s = foldl (\<lambda>a c. 10 * a + (of_char c - 48)) 0 s"

section \<open>DiffParser (src/utils/diffParser.ts)\<close>

datatype change_type = Added | Removed | Modified

record LineChange =
  lineNumber :: nat
  type :: change_type
  content :: string

record ChangeStats =
  additions :: nat
  deletions :: nat
  changes :: nat

record ParsedDiff =
  addedLines :: "LineChange list"
  removedLines :: "LineChange list"
  modifiedLines :: "LineChange list"
  stats :: ChangeStats

record DiffHunk =
  oldStart :: nat
  oldLines :: nat
  newStart :: nat
  newLines :: nat
  lines :: "string list"

subsection \<open>generateUnifiedDiff\<close>

text \<open>
  One round of the loop of \<open>generateUnifiedDiff\<close>: the lines pushed for index \<open>i\<close>,
  given \<open>originalLines[i]\<close> and \<open>modifiedLines[i]\<close>.
\<close>

definition diff_line :: "string option \<Rightarrow> string option \<Rightarrow> string list" where
  "diff_line origLine modLine =
     (if origLine = modLine then [CHR '' '' # template origLine]
      else (case origLine of None \<Rightarrow> [] | Some l \<Rightarrow> [CHR ''-'' # l])
         @ (case modLine of None \<Rightarrow> [] | Some l \<Rightarrow> [CHR ''+'' # l]))"

definition diff_body :: "string list \<Rightarrow> string list \<Rightarrow> string list" where
  "diff_body origLines modLines =
     concat (map (\<lambda>i. diff_line (nth_opt origLines i) (nth_opt modLines i))
                 [0 ..< max (length origLines) (length modLines)])"

definition range_line :: "nat \<Rightarrow> nat \<Rightarrow> string" where
  "range_line a b = ''@@ -1,'' @ show_nat a @ '' +1,'' @ show_nat b @ '' @@''"

text \<open>The optional third argument defaults to \<open>'file'\<close>; here it is always given.\<close>

definition generateUnifiedDiff :: "string \<Rightarrow> string \<Rightarrow> string \<Rightarrow> string" where
  "generateUnifiedDiff original modified path =
     (let origLines = split_lines original;
          modLines = split_lines modified;
          header = [''--- a/'' @ path, ''+++ b/'' @ path]
      in join_lines
           (if length origLines > 0 \<or> length modLines > 0
            then header
               @ [range_line (length origLines) (length modLines)]
               @ diff_body origLines modLines
            else header))"

subsection \<open>extractHunks\<close>

text \<open>
  The match of \<open>/^@@ -(\d+),?(\d*) \+(\d+),?(\d*) @@/\<close>, returning the four capture
  groups. Every quantifier is greedy and is followed by a character outside its own class
  (a digit run by a non-digit, the optional comma by a digit run or a space), so
  backtracking never finds a match that the greedy scan misses, and the captures are the
  greedy ones. The expression is anchored at the start only: text after the closing
  \<open>@@\<close> is accepted.
\<close>

fun strip_prefix :: "string \<Rightarrow> string \<Rightarrow> string option" where
  "strip_prefix [] s = Some s"
| "strip_prefix (p # ps) [] = None"
| "strip_prefix (p # ps) (c # cs) = (if p = c then strip_prefix ps cs else None)"

definition opt_comma :: "string \<Rightarrow> string" where
  "opt_comma s = (case s of [] \<Rightarrow> s | c # cs \<Rightarrow> if c = CHR '','' then cs else s)"

definition hunkMatch :: "string \<Rightarrow> (string \<times> string \<times> string \<times> string) option" where
  "hunkMatch line =
     (case strip_prefix ''@@ -'' line of
        None \<Rightarrow> None
      | Some r1 \<Rightarrow>
          let g1 = takeWhile is_digit r1;
              r2 = opt_comma (dropWhile is_digit r1);
              g2 = takeWhile is_digit r2
          in if g1 = [] then None
             else (case strip_prefix '' +'' (dropWhile is_digit r2) of
                     None \<Rightarrow> None
                   | Some r3 \<Rightarrow>
                       let g3 = takeWhile is_digit r3;
                           r4 = opt_comma (dropWhile is_digit r3);
                           g4 = takeWhile is_digit r4
                       in if g3 = [] then None
                          else (case strip_prefix '' @@'' (dropWhile is_digit r4) of
                                  None \<Rightarrow> None
                                | Some _ \<Rightarrow> Some (g1, g2, g3, g4))))"

text \<open>\<open>parseInt(g || '1')\<close>: the empty string is falsy.\<close>

definition count_or_one :: "string \<Rightarrow> nat" where
  "count_or_one g = parseInt (if g = [] then ''1'' else g)"

text \<open>
  The test \<open>line.startsWith('+') || line.startsWith('-') || line.startsWith(' ')\<close>.
\<close>

definition body_line :: "string \<Rightarrow> bool" where
  "body_line line =
     (startsWith line (CHR ''+'') \<or> startsWith line (CHR ''-'') \<or> startsWith line (CHR '' ''))"

text \<open>
  The body of the loop of \<open>extractHunks\<close>, on the pair of \<open>hunks\<close> and
  \<open>currentHunk\<close> (\<open>None\<close> for \<open>null\<close>).
\<close>

definition hunk_step ::
  "DiffHunk list \<times> DiffHunk option \<Rightarrow> string \<Rightarrow> DiffHunk list \<times> DiffHunk option" where
  "hunk_step st line =
     (case st of (hunks, currentHunk) \<Rightarrow>
        (case hunkMatch line of
           Some (g1, g2, g3, g4) \<Rightarrow>
             ((case currentHunk of None \<Rightarrow> hunks | Some h \<Rightarrow> hunks @ [h]),
              Some \<lparr>oldStart = parseInt g1, oldLines = count_or_one g2,
                    newStart = parseInt g3, newLines = count_or_one g4, lines = []\<rparr>)
         | None \<Rightarrow>
             (case currentHunk of
                None \<Rightarrow> st
              | Some h \<Rightarrow>
                  if body_line line
                  then (hunks, Some (h\<lparr>lines := lines h @ [line]\<rparr>))
                  else st)))"

definition finish_hunks :: "DiffHunk list \<times> DiffHunk option \<Rightarrow> DiffHunk list" where
  "finish_hunks st =
     (case st of (hunks, currentHunk) \<Rightarrow>
        (case currentHunk of None \<Rightarrow> hunks | Some h \<Rightarrow> hunks @ [h]))"

definition extractHunks :: "string list \<Rightarrow> DiffHunk list" where
  "extractHunks ls = finish_hunks (foldl hunk_step ([], None) ls)"

subsection \<open>parseUnifiedDiff\<close>

text \<open>
  The inner loop over the lines of a hunk, on \<open>oldLineNum\<close>, \<open>newLineNum\<close>,
  \<open>addedLines\<close> and \<open>removedLines\<close>; \<open>line.substring(1)\<close> is \<open>drop 1\<close>.
\<close>

definition parse_line ::
  "nat \<times> nat \<times> LineChange list \<times> LineChange list \<Rightarrow> string
     \<Rightarrow> nat \<times> nat \<times> LineChange list \<times> LineChange list" where
  "parse_line st line =
     (case st of (oldLineNum, newLineNum, addedLs, removedLs) \<Rightarrow>
        if startsWith line (CHR ''+'')
        then (oldLineNum, newLineNum + 1,
              addedLs @ [\<lparr>lineNumber = newLineNum, type = Added, content = drop 1 line\<rparr>],
              removedLs)
        else if startsWith line (CHR ''-'')
        then (oldLineNum + 1, newLineNum, addedLs,
              removedLs @ [\<lparr>lineNumber = oldLineNum, type = Removed, content = drop 1 line\<rparr>])
        else (oldLineNum + 1, newLineNum + 1, addedLs, removedLs))"

definition parse_hunk ::
  "LineChange list \<times> LineChange list \<Rightarrow> DiffHunk \<Rightarrow> LineChange list \<times> LineChange list" where
  "parse_hunk acc hunk =
     (case acc of (addedLs, removedLs) \<Rightarrow>
        (case foldl parse_line (oldStart hunk, newStart hunk, addedLs, removedLs) (lines hunk) of
           (_, _, addedLs', removedLs') \<Rightarrow> (addedLs', removedLs')))"

definition parseUnifiedDiff :: "string \<Rightarrow> ParsedDiff" where
  "parseUnifiedDiff diffText =
     (let hunks = extractHunks (split_lines diffText)
      in (case foldl parse_hunk ([], []) hunks of
            (addedLs, removedLs) \<Rightarrow>
              \<lparr>addedLines = addedLs, removedLines = removedLs, modifiedLines = [],
               stats = \<lparr>additions = length addedLs, deletions = length removedLs,
                        changes = length ([] :: LineChange list)\<rparr>\<rparr>))"

text \<open>The same loop and result, on the hunks that \<open>extractHunks\<close> returned.\<close>

definition parse_hunks :: "DiffHunk list \<Rightarrow> ParsedDiff" where
  "parse_hunks hunks =
     (case foldl parse_hunk ([], []) hunks of
        (addedLs, removedLs) \<Rightarrow>
          \<lparr>addedLines = addedLs, removedLines = removedLs, modifiedLines = [],
           stats = \<lparr>additions = length addedLs, deletions = length removedLs,
                    changes = length ([] :: LineChange list)\<rparr>\<rparr>)"

text \<open>
  A range line \<open>@@ -a,b +c,d @@\<close> of the grammar, with its two declared counts
  \<open>b\<close> and \<open>d\<close>; and a hunk with other declared counts.
\<close>

definition range_header :: "nat \<Rightarrow> nat \<Rightarrow> nat \<Rightarrow> nat \<Rightarrow> string" where
  "range_header a b c d =
     ''@@ -'' @ show_nat a @ '','' @ show_nat b @ '' +'' @ show_nat c @ '','' @ show_nat d
       @ '' @@''"

definition declare_counts :: "nat \<Rightarrow> nat \<Rightarrow> DiffHunk \<Rightarrow> DiffHunk" where
  "declare_counts b d h = h\<lparr>oldLines := b, newLines := d\<rparr>"

text \<open>The state of the loop of \<open>extractHunks\<close> with all declared counts set to zero.\<close>

definition erase_counts ::
  "DiffHunk list \<times> DiffHunk option \<Rightarrow> DiffHunk list \<times> DiffHunk option" where
  "erase_counts st =
     (map (declare_counts 0 0) (fst st), map_option (declare_counts 0 0) (snd st))"

subsection \<open>The ops of a hunk\<close>

text \<open>
  A hunk of the source holds its ops as prefixed lines: a line with a space is an Equal
  op, one with \<open>-\<close> a Delete, one with \<open>+\<close> an Insert. The Equal and Delete
  lines are the old side of the hunk, the Equal and Insert lines its new side.
\<close>

definition old_side :: "string \<Rightarrow> bool" where
  "old_side line = (startsWith line (CHR '' '') \<or> startsWith line (CHR ''-''))"

definition new_side :: "string \<Rightarrow> bool" where
  "new_side line = (startsWith line (CHR '' '') \<or> startsWith line (CHR ''+''))"

definition insert_line :: "string \<Rightarrow> bool" where
  "insert_line line = startsWith line (CHR ''+'')"

definition delete_line :: "string \<Rightarrow> bool" where
  "delete_line line = startsWith line (CHR ''-'')"

definition equal_lines :: "string list \<Rightarrow> string list" where
  "equal_lines ls = map (drop 1) (filter (\<lambda>line. startsWith line (CHR '' '')) ls)"

definition hunk_ops :: "string \<Rightarrow> string \<Rightarrow> string \<Rightarrow> string list" where
  "hunk_ops orig modif path =
     concat (map lines (extractHunks (split_lines (generateUnifiedDiff orig modif path))))"

subsection \<open>compareLineByLine\<close>

definition compare_step ::
  "string list \<Rightarrow> string list
     \<Rightarrow> LineChange list \<times> LineChange list \<times> LineChange list \<Rightarrow> nat
     \<Rightarrow> LineChange list \<times> LineChange list \<times> LineChange list" where
  "compare_step origLines modLines acc i =
     (case acc of (addedLs, removedLs, modifiedLs) \<Rightarrow>
        (case (nth_opt origLines i, nth_opt modLines i) of
           (None, Some modLine) \<Rightarrow>
             (addedLs @ [\<lparr>lineNumber = i, type = Added, content = modLine\<rparr>],
              removedLs, modifiedLs)
         | (Some origLine, None) \<Rightarrow>
             (addedLs, removedLs @ [\<lparr>lineNumber = i, type = Removed, content = origLine\<rparr>],
              modifiedLs)
         | (Some origLine, Some modLine) \<Rightarrow>
             if origLine \<noteq> modLine
             then (addedLs, removedLs,
                   modifiedLs @ [\<lparr>lineNumber = i, type = Modified, content = modLine\<rparr>])
             else acc
         | (None, None) \<Rightarrow> acc))"

definition compareLineByLine :: "string \<Rightarrow> string \<Rightarrow> ParsedDiff" where
  "compareLineByLine original modified =
     (let origLines = split_lines original;
          modLines = split_lines modified;
          maxLength = max (length origLines) (length modLines)
      in (case foldl (compare_step origLines modLines) ([], [], []) [0 ..< maxLength] of
            (addedLs, removedLs, modifiedLs) \<Rightarrow>
              \<lparr>addedLines = addedLs, removedLines = removedLs, modifiedLines = modifiedLs,
               stats = \<lparr>additions = length addedLs, deletions = length removedLs,
                        changes = length modifiedLs\<rparr>\<rparr>))"

subsection \<open>calculateStats\<close>

record LineStats =
  additionsCount :: nat
  deletionsCount :: nat
  unchanged :: nat

text \<open>
  The fields \<open>additions\<close> and \<open>deletions\<close> of the source's anonymous result type are
  named \<open>additionsCount\<close> and \<open>deletionsCount\<close> here, apart from those of
  \<open>ParsedDiff.stats\<close>.
\<close>

definition stats_step :: "string list \<Rightarrow> string list \<Rightarrow> LineStats \<Rightarrow> nat \<Rightarrow> LineStats" where
  "stats_step origLines modLines acc i =
     (let origLine = nth_opt origLines i;
          modLine = nth_opt modLines i
      in if origLine = modLine then acc\<lparr>unchanged := unchanged acc + 1\<rparr>
         else if origLine = None then acc\<lparr>additionsCount := additionsCount acc + 1\<rparr>
         else if modLine = None then acc\<lparr>deletionsCount := deletionsCount acc + 1\<rparr>
         else acc\<lparr>additionsCount := additionsCount acc + 1,
                  deletionsCount := deletionsCount acc + 1\<rparr>)"

definition calculateStats :: "string \<Rightarrow> string \<Rightarrow> LineStats" where
  "calculateStats original modified =
     (let origLines = split_lines original;
          modLines = split_lines modified;
          maxLength = max (length origLines) (length modLines)
      in foldl (stats_step origLines modLines)
           \<lparr>additionsCount = 0, deletionsCount = 0, unchanged = 0\<rparr> [0 ..< maxLength])"

section \<open>DiffManager (src/ui/diffManager.ts)\<close>

subsection \<open>calculateChangedLines\<close>

record ChangedLines =
  added :: "nat list"
  removed :: "nat list"

definition changed_step :: "string list \<Rightarrow> string list \<Rightarrow> ChangedLines \<Rightarrow> nat \<Rightarrow> ChangedLines" where
  "changed_step origLines modLines acc i =
     (let origLine = nth_opt origLines i;
          modLine = nth_opt modLines i
      in if origLine \<noteq> modLine
         then (let acc1 = (if modLine \<noteq> None then acc\<lparr>added := added acc @ [i]\<rparr> else acc)
               in if origLine \<noteq> None \<and> modLine = None
                  then acc1\<lparr>removed := removed acc1 @ [i]\<rparr>
                  else acc1)
         else acc)"

definition calculateChangedLines :: "string \<Rightarrow> string \<Rightarrow> ChangedLines" where
  "calculateChangedLines original modified =
     (let origLines = split_lines original;
          modLines = split_lines modified;
          maxLength = max (length origLines) (length modLines)
      in foldl (changed_step origLines modLines) \<lparr>added = [], removed = []\<rparr> [0 ..< maxLength])"

subsection \<open>applyChanges\<close>

text \<open>
  The workspace maps a file path to the text of its document. The editor is the host, and
  its answers are given: whether it creates a missing file (\<open>createOk\<close>; if not,
  \<open>openTextDocument\<close> throws again, with the message \<open>openError\<close>), whether it
  applies a workspace edit (\<open>editOk\<close>), whether \<open>document.save()\<close> and
  \<open>showTextDocument\<close> throw and with which message (\<open>saveError\<close>, \<open>showError\<close>),
  and how many lines it counts in a text (\<open>lineCount\<close>): \<open>document.lineAt(i)\<close> throws,
  with the message \<open>lineAtError\<close>, unless \<open>i\<close> is below that number.
  Every exception inside \<open>applyChanges\<close> is caught and thrown again as
  \<open>Error('Failed to apply changes: ' + message)\<close>, also when the edit has been
  applied before: the result is the workspace as the call leaves it, with the error or,
  when the call returns, with the lines that were highlighted.
\<close>

datatype error = Error string

record host =
  createOk :: bool
  openError :: string
  editOk :: bool
  saveError :: "string option"
  showError :: "string option"
  lineCount :: "string \<Rightarrow> nat"
  lineAtError :: string

type_synonym workspace = "string \<rightharpoonup> string"

text \<open>\<open>edit.replace(uri, range, text)\<close> on a range given by two offsets.\<close>

definition replace_range :: "string \<Rightarrow> nat \<Rightarrow> nat \<Rightarrow> string \<Rightarrow> string" where
  "replace_range text start stop new = take start text @ new @ drop stop text"

text \<open>
  \<open>highlightChangedLines\<close> calls \<open>lineAt\<close> on every added line number of the document
  shown (whose text is \<open>text\<close>); the removed ones are not used. \<open>None\<close>: it returns.
\<close>

definition highlightChangedLines :: "host \<Rightarrow> string \<Rightarrow> ChangedLines \<Rightarrow> string option" where
  "highlightChangedLines h text changedLines =
     (if list_all (\<lambda>lineNum. lineNum < lineCount h text) (added changedLines) then None
      else Some (lineAtError h))"

definition failed :: "string \<Rightarrow> error" where
  "failed message = Error (''Failed to apply changes: '' @ message)"

definition applyChanges ::
  "host \<Rightarrow> workspace \<Rightarrow> string \<Rightarrow> string \<Rightarrow> workspace \<times> (error + ChangedLines)" where
  "applyChanges h ws path modifiedContent =
     (let ws1 = (case ws path of
                   Some _ \<Rightarrow> ws
                 | None \<Rightarrow> if createOk h then ws(path \<mapsto> []) else ws)
      in (case ws1 path of
            None \<Rightarrow> (ws1, Inl (failed (openError h)))
          | Some originalContent \<Rightarrow>
              let changedLines = calculateChangedLines originalContent modifiedContent
              in if \<not> editOk h then (ws1, Inl (failed ''Failed to apply workspace edit''))
                 else
                   let text = replace_range originalContent 0 (length originalContent)
                                modifiedContent;
                       ws2 = ws1(path \<mapsto> text)
                   in (case saveError h of
                         Some message \<Rightarrow> (ws2, Inl (failed message))
                       | None \<Rightarrow>
                           (case showError h of
                              Some message \<Rightarrow> (ws2, Inl (failed message))
                            | None \<Rightarrow>
                                (case highlightChangedLines h text changedLines of
                                   Some message \<Rightarrow> (ws2, Inl (failed message))
                                 | None \<Rightarrow> (ws2, Inr changedLines))))))"

text \<open>Whether a call failed and with which error, whatever it returned otherwise.\<close>

definition outcome :: "error + 'a \<Rightarrow> error option" where
  "outcome r = (case r of Inl e \<Rightarrow> Some e | Inr _ \<Rightarrow> None)"

section \<open>StepStore (src/state/stepStore.ts)\<close>

subsection \<open>Values and objects\<close>

text \<open>
  The store is typed to hold \<open>Step\<close> objects, but \<open>importFromJSON\<close> stores whatever
  objects the parsed text gives. An object is therefore the list of its own properties, in
  their order, and a value is a JSON value or a \<open>Date\<close>, given by its time value
  (\<open>None\<close> for an invalid date). A number is an IEEE double, given by its 64 bits;
  the store never computes with one. The keys of an object that \<open>JSON.parse\<close> returns
  are distinct.
\<close>

type_synonym number = "64 word"

datatype jsvalue =
    Null
  | Bool bool
  | Num number
  | Str string
  | Arr "jsvalue list"
  | Obj "(string \<times> jsvalue) list"
  | Date "int option"

type_synonym object = "(string \<times> jsvalue) list"

text \<open>
  \<open>o[k]\<close> for an object and a key that \<open>Object.prototype\<close> does not define
  (\<open>None\<close> for \<open>undefined\<close>), and \<open>o[k] = v\<close>: a new property comes last.
\<close>

definition get_property :: "object \<Rightarrow> string \<Rightarrow> jsvalue option" where
  "get_property obj k = map_of obj k"

fun set_property :: "string \<Rightarrow> jsvalue \<Rightarrow> object \<Rightarrow> object" where
  "set_property k v [] = [(k, v)]"
| "set_property k v (p # ps) = (if fst p = k then (k, v) # ps else p # set_property k v ps)"

text \<open>The interface \<open>Step\<close> and the object of a step; the field \<open>id\<close> is \<open>step_id\<close> here.\<close>

datatype step_status = accepted | rejected | pending

fun status_string :: "step_status \<Rightarrow> string" where
  "status_string accepted = ''accepted''"
| "status_string rejected = ''rejected''"
| "status_string pending = ''pending''"

record DiffInfo =
  original :: string
  modified :: string

record Step =
  step_id :: string
  timestamp :: "int option"
  filePath :: string
  diff :: DiffInfo
  model :: string
  status :: step_status
  description :: "string option"

definition step_object :: "Step \<Rightarrow> object" where
  "step_object step =
     [(''id'', Str (step_id step)),
      (''timestamp'', Date (timestamp step)),
      (''filePath'', Str (filePath step)),
      (''diff'', Obj [(''original'', Str (original (diff step))),
                      (''modified'', Str (modified (diff step)))]),
      (''model'', Str (model step)),
      (''status'', Str (status_string (status step)))]
     @ (case description step of None \<Rightarrow> [] | Some d \<Rightarrow> [(''description'', Str d)])"

subsection \<open>The store\<close>

text \<open>
  JavaScript arrays and objects are references: \<open>getAllSteps\<close> copies the array but
  shares the step objects, and \<open>updateStepStatus\<close> writes into an object that a
  caller may hold as well. The state is therefore a heap of objects and of arrays of
  references to them, with \<open>next_ref\<close> the first address not yet allocated, and the
  field \<open>steps\<close> of the store pointing to its array. \<open>fired\<close> records the calls of
  \<open>_onDidChangeSteps.fire()\<close> in order: each entry is the content of the store that a
  listener, which the emitter calls synchronously, reads during that call.
\<close>

type_synonym ref = nat

record StepStore =
  objects :: "ref \<Rightarrow> object option"
  arrays :: "ref \<Rightarrow> ref list"
  next_ref :: ref
  steps :: ref
  fired :: "object option list list"

definition new_StepStore :: StepStore where
  "new_StepStore =
     \<lparr>objects = (\<lambda>_. None), arrays = (\<lambda>_. []), next_ref = 1, steps = 0, fired = []\<rparr>"

text \<open>
  The array of the store has been allocated: so it is for a new store, and every operation
  keeps it so.
\<close>

definition allocated :: "StepStore \<Rightarrow> bool" where
  "allocated s = (steps s < next_ref s)"

definition current_steps :: "StepStore \<Rightarrow> ref list" where
  "current_steps s = arrays s (steps s)"

definition snapshot :: "StepStore \<Rightarrow> object option list" where
  "snapshot s = map (objects s) (current_steps s)"

definition fire :: "StepStore \<Rightarrow> StepStore" where
  "fire s = s\<lparr>fired := fired s @ [snapshot s]\<rparr>"

text \<open>A new array literal or the result of \<open>filter\<close> or of a spread: a fresh address.\<close>

definition new_array :: "ref list \<Rightarrow> StepStore \<Rightarrow> ref \<times> StepStore" where
  "new_array xs s =
     (next_ref s, s\<lparr>arrays := (arrays s)(next_ref s := xs), next_ref := next_ref s + 1\<rparr>)"


definition addStep :: "ref \<Rightarrow> StepStore \<Rightarrow> StepStore" where
  "addStep step s = fire (s\<lparr>arrays := (arrays s)(steps s := current_steps s @ [step])\<rparr>)"

definition getAllSteps :: "StepStore \<Rightarrow> ref \<times> StepStore" where
  "getAllSteps s = new_array (current_steps s) s"

text \<open>\<open>step[k] === v\<close> for a string \<open>v\<close>, on the object at a reference.\<close>

definition property_is :: "StepStore \<Rightarrow> string \<Rightarrow> string \<Rightarrow> ref \<Rightarrow> bool" where
  "property_is s k v r =
     (case objects s r of
        None \<Rightarrow> False
      | Some step \<Rightarrow> get_property step k = Some (Str v))"

definition has_id :: "StepStore \<Rightarrow> string \<Rightarrow> ref \<Rightarrow> bool" where
  "has_id s i r = property_is s ''id'' i r"

definition getStepById :: "string \<Rightarrow> StepStore \<Rightarrow> ref option" where
  "getStepById i s = find (has_id s i) (current_steps s)"

definition getStepsForFile :: "string \<Rightarrow> StepStore \<Rightarrow> ref \<times> StepStore" where
  "getStepsForFile path s =
     new_array (filter (property_is s ''filePath'' path) (current_steps s)) s"

definition getStepsByStatus :: "step_status \<Rightarrow> StepStore \<Rightarrow> ref \<times> StepStore" where
  "getStepsByStatus st s =
     new_array (filter (property_is s ''status'' (status_string st)) (current_steps s)) s"

definition getStepCount :: "StepStore \<Rightarrow> nat" where
  "getStepCount s = length (current_steps s)"

definition updateStepStatus :: "string \<Rightarrow> step_status \<Rightarrow> StepStore \<Rightarrow> StepStore" where
  "updateStepStatus i st s =
     (case getStepById i s of
        None \<Rightarrow> s
      | Some r \<Rightarrow>
          fire (s\<lparr>objects := (objects s)
                    (r := map_option (set_property ''status'' (Str (status_string st)))
                            (objects s r))\<rparr>))"

text \<open>\<open>findIndex\<close> returns \<open>-1\<close> when no element satisfies the test: \<open>None\<close>.\<close>

fun findIndex :: "('a \<Rightarrow> bool) \<Rightarrow> 'a list \<Rightarrow> nat option" where
  "findIndex P [] = None"
| "findIndex P (x # xs) = (if P x then Some 0 else map_option Suc (findIndex P xs))"

definition removeStep :: "string \<Rightarrow> StepStore \<Rightarrow> StepStore" where
  "removeStep i s =
     (case findIndex (has_id s i) (current_steps s) of
        None \<Rightarrow> s
      | Some index \<Rightarrow>
          fire (s\<lparr>arrays := (arrays s)(steps s := take index (current_steps s)
                                                    @ drop (index + 1) (current_steps s))\<rparr>))"

definition clear :: "StepStore \<Rightarrow> StepStore" where
  "clear s = (case new_array [] s of (a, s1) \<Rightarrow> fire (s1\<lparr>steps := a\<rparr>))"

subsection \<open>importFromJSON\<close>

text \<open>
  \<open>importFromJSON\<close> starts from what \<open>JSON.parse\<close> makes of the text: it throws a
  \<open>SyntaxError\<close>, or returns a value. The callback of \<open>map\<close> is
  \<open>step => ({...step, timestamp: new Date(step.timestamp)})\<close>. The spread copies the own
  enumerable properties of the element: those of an object, the indices of an array or of a
  string, none of another value. Reading \<open>step.timestamp\<close> throws a \<open>TypeError\<close> when
  the element is \<open>null\<close>, and gives \<open>undefined\<close> (\<open>None\<close>) when it is not an object
  or has no such property. \<open>new Date\<close> is the host's: it returns a date, or it throws
  (when its argument is an object that does not convert to a primitive). Whatever is
  thrown before \<open>this.steps\<close> is assigned, the \<open>catch\<close> throws the same \<open>Error\<close>
  instead; the result is that error, if any, and the store as the call leaves it.
\<close>

datatype parsed = SyntaxError | Parsed jsvalue

datatype 'a completion = Throws | Returns 'a

type_synonym date_constructor = "jsvalue option \<Rightarrow> int option completion"

definition own_properties :: "jsvalue \<Rightarrow> object" where
  "own_properties v =
     (case v of
        Obj ps \<Rightarrow> ps
      | Arr es \<Rightarrow> zip (map show_nat [0 ..< length es]) es
      | Str cs \<Rightarrow> zip (map show_nat [0 ..< length cs]) (map (\<lambda>c. Str [c]) cs)
      | _ \<Rightarrow> [])"

definition timestamp_of :: "jsvalue \<Rightarrow> jsvalue option" where
  "timestamp_of v = (case v of Obj ps \<Rightarrow> map_of ps ''timestamp'' | _ \<Rightarrow> None)"

definition revive :: "date_constructor \<Rightarrow> jsvalue \<Rightarrow> object completion" where
  "revive newDate step =
     (if step = Null then Throws
      else (case newDate (timestamp_of step) of
              Throws \<Rightarrow> Throws
            | Returns d \<Rightarrow> Returns (set_property ''timestamp'' (Date d) (own_properties step))))"

text \<open>\<open>imported.map(callback)\<close>: the first exception ends it.\<close>

fun revive_all :: "date_constructor \<Rightarrow> jsvalue list \<Rightarrow> object list completion" where
  "revive_all newDate [] = Returns []"
| "revive_all newDate (e # es) =
     (case revive newDate e of
        Throws \<Rightarrow> Throws
      | Returns x \<Rightarrow>
          (case revive_all newDate es of
             Throws \<Rightarrow> Throws
           | Returns xs \<Rightarrow> Returns (x # xs)))"

text \<open>\<open>Array.isArray\<close>, and an element on which the callback returns.\<close>

definition isArray :: "jsvalue \<Rightarrow> bool" where
  "isArray v = (case v of Arr _ \<Rightarrow> True | _ \<Rightarrow> False)"

definition revivable :: "date_constructor \<Rightarrow> jsvalue \<Rightarrow> bool" where
  "revivable newDate e = (e \<noteq> Null \<and> newDate (timestamp_of e) \<noteq> Throws)"

definition new_objects :: "object list \<Rightarrow> StepStore \<Rightarrow> ref list \<times> StepStore" where
  "new_objects xs s =
     (let n = next_ref s
      in ([n ..< n + length xs],
          s\<lparr>objects := (\<lambda>r. if n \<le> r \<and> r < n + length xs then Some (xs ! (r - n))
                              else objects s r),
            next_ref := n + length xs\<rparr>))"

definition importFromJSON ::
  "date_constructor \<Rightarrow> parsed \<Rightarrow> StepStore \<Rightarrow> error option \<times> StepStore" where
  "importFromJSON newDate imported s =
     (case imported of
        SyntaxError \<Rightarrow> (Some (Error ''Invalid JSON format for steps import''), s)
      | Parsed v \<Rightarrow>
          (case v of
             Arr elems \<Rightarrow>
               (case revive_all newDate elems of
                  Throws \<Rightarrow> (Some (Error ''Invalid JSON format for steps import''), s)
                | Returns xs \<Rightarrow>
                    (case new_objects xs s of (rs, s1) \<Rightarrow>
                       (case new_array rs s1 of (a, s2) \<Rightarrow>
                          (None, fire (s2\<lparr>steps := a\<rparr>)))))
           | _ \<Rightarrow> (None, s)))"

section \<open>StepHistoryProvider (src/providers/stepHistoryProvider.ts)\<close>

text \<open>
  \<open>getChildren\<close> returns the array that \<open>getAllSteps\<close> gave it, reversed in place
  (\<open>Array.prototype.reverse\<close> returns the array it was called on).
\<close>

definition reverse_in_place :: "ref \<Rightarrow> StepStore \<Rightarrow> StepStore" where
  "reverse_in_place a s = s\<lparr>arrays := (arrays s)(a := rev (arrays s a))\<rparr>"

definition getChildren :: "ref option \<Rightarrow> StepStore \<Rightarrow> ref \<times> StepStore" where
  "getChildren element s =
     (case element of
        Some _ \<Rightarrow> new_array [] s
      | None \<Rightarrow> (case getAllSteps s of (a, s1) \<Rightarrow> (a, reverse_in_place a s1)))"

section \<open>Lines, digits and the range line\<close>

lemma split_lines_not_Nil: "split_lines s \<noteq> []"
  by (induction s) (auto split: list.splits)

lemma split_lines_no_newline: "l \<in> set (split_lines s) \<Longrightarrow> newline \<notin> set l"
proof (induction s arbitrary: l)
  case Nil
  then show ?case by simp
next
  case (Cons c cs)
  then show ?case
    by (cases "split_lines cs") (auto split: if_splits)
qed

lemma split_lines_single: "newline \<notin> set l \<Longrightarrow> split_lines l = [l]"
  by (induction l) auto

lemma split_lines_append:
  "newline \<notin> set l \<Longrightarrow> split_lines (l @ newline # rest) = l # split_lines rest"
  by (induction l) auto

lemma split_join:
  "ls \<noteq> [] \<Longrightarrow> \<forall>l \<in> set ls. newline \<notin> set l \<Longrightarrow> split_lines (join_lines ls) = ls"
proof (induction ls rule: join_lines.induct)
  case 1
  then show ?case by simp
next
  case (2 l)
  then show ?case by (simp add: split_lines_single)
next
  case (3 l m ls)
  then show ?case by (simp add: split_lines_append)
qed

lemma nth_opt_Nil [simp]: "nth_opt [] i = None"
  by (simp add: nth_opt_def)

lemma nth_opt_Cons_0 [simp]: "nth_opt (x # xs) 0 = Some x"
  by (simp add: nth_opt_def)

lemma nth_opt_Cons_Suc [simp]: "nth_opt (x # xs) (Suc i) = nth_opt xs i"
  by (simp add: nth_opt_def)

lemma upt_0_Suc: "[0 ..< Suc n] = 0 # map Suc [0 ..< n]"
  by (simp add: upt_conv_Cons map_Suc_upt del: upt_Suc)

lemma diff_body_Nil_Nil: "diff_body [] [] = []"
  by (simp add: diff_body_def)

lemma diff_body_Cons_Cons:
  "diff_body (x # xs) (y # ys) = diff_line (Some x) (Some y) @ diff_body xs ys"
  by (simp add: diff_body_def upt_0_Suc comp_def del: upt_Suc)

lemma diff_body_Cons_Nil:
  "diff_body (x # xs) [] = diff_line (Some x) None @ diff_body xs []"
  by (simp add: diff_body_def upt_0_Suc comp_def del: upt_Suc)

lemma diff_body_Nil_Cons:
  "diff_body [] (y # ys) = diff_line None (Some y) @ diff_body [] ys"
  by (simp add: diff_body_def upt_0_Suc comp_def del: upt_Suc)

lemma digit_char_is_digit: "d < 10 \<Longrightarrow> is_digit (digit_char d)"
  by (simp add: is_digit_def digit_char_def)

lemma digit_char_value: "d < 10 \<Longrightarrow> (of_char (digit_char d) :: nat) - 48 = d"
  by (simp add: digit_char_def)

lemma show_nat_digits: "c \<in> set (show_nat n) \<Longrightarrow> is_digit c"
proof (induction n arbitrary: c rule: show_nat.induct)
  case (1 n)
  show ?case
  proof (cases "n < 10")
    case True
    with "1.prems" show ?thesis
      by (simp add: show_nat.simps [of n] digit_char_is_digit)
  next
    case False
    with "1.prems" "1.IH" show ?thesis
      by (auto simp: show_nat.simps [of n] digit_char_is_digit)
  qed
qed

lemma show_nat_not_Nil: "show_nat n \<noteq> []"
  by (subst show_nat.simps) simp

lemma parseInt_snoc: "parseInt (s @ [c]) = 10 * parseInt s + (of_char c - 48)"
  by (simp add: parseInt_def)

lemma parseInt_show_nat: "parseInt (show_nat n) = n"
proof (induction n rule: show_nat.induct)
  case (1 n)
  show ?case
  proof (cases "n < 10")
    case True
    then show ?thesis
      by (simp add: show_nat.simps [of n] parseInt_def digit_char_value)
  next
    case False
    with "1.IH" show ?thesis
      by (simp add: show_nat.simps [of n] parseInt_snoc digit_char_value)
  qed
qed

lemma takeWhile_digits:
  "\<forall>c \<in> set ds. is_digit c \<Longrightarrow> \<not> is_digit x \<Longrightarrow> takeWhile is_digit (ds @ x # rest) = ds"
  by (simp add: takeWhile_tail)

lemma dropWhile_digits:
  "\<forall>c \<in> set ds. is_digit c \<Longrightarrow> \<not> is_digit x \<Longrightarrow> dropWhile is_digit (ds @ x # rest) = x # rest"
  by simp

lemma is_digit_1: "is_digit (CHR ''1'')"
  by (simp add: is_digit_def)

lemma not_digit_comma: "\<not> is_digit (CHR '','')"
  by (simp add: is_digit_def)

lemma not_digit_space: "\<not> is_digit (CHR '' '')"
  by (simp add: is_digit_def)

lemma hunkMatch_range_line:
  "hunkMatch (range_line a b) = Some (''1'', show_nat a, ''1'', show_nat b)"
proof -
  have da: "\<forall>c \<in> set (show_nat a). is_digit c" and db: "\<forall>c \<in> set (show_nat b). is_digit c"
    by (simp_all add: show_nat_digits)
  show ?thesis
    by (simp add: hunkMatch_def range_line_def opt_comma_def Let_def is_digit_1 not_digit_comma
        not_digit_space takeWhile_digits [OF da] dropWhile_digits [OF da]
        takeWhile_digits [OF db] dropWhile_digits [OF db])
qed


lemma hunkMatch_not_at: "startsWith l c \<Longrightarrow> c \<noteq> CHR ''@'' \<Longrightarrow> hunkMatch l = None"
  by (cases l) (auto simp: startsWith_def hunkMatch_def)

lemma body_line_no_match: "body_line l \<Longrightarrow> hunkMatch l = None"
  by (auto simp: body_line_def dest: hunkMatch_not_at)

lemma hunk_step_body:
  "body_line l \<Longrightarrow> hunk_step (hs, Some h) l = (hs, Some (h\<lparr>lines := lines h @ [l]\<rparr>))"
  by (simp add: hunk_step_def body_line_no_match)

lemma foldl_hunk_step_body:
  "\<forall>l \<in> set ls. body_line l \<Longrightarrow>
   foldl hunk_step (hs, Some h) ls = (hs, Some (h\<lparr>lines := lines h @ ls\<rparr>))"
proof (induction ls arbitrary: h)
  case Nil
  then show ?case by simp
next
  case (Cons l ls)
  then show ?case by (simp add: hunk_step_body)
qed

lemma diff_line_body: "l \<in> set (diff_line a b) \<Longrightarrow> body_line l"
  by (auto simp: diff_line_def body_line_def startsWith_def split: if_splits option.splits)

lemma diff_body_body: "l \<in> set (diff_body xs ys) \<Longrightarrow> body_line l"
  by (auto simp: diff_body_def dest: diff_line_body)

lemma hunk_step_skip: "hunkMatch l = None \<Longrightarrow> hunk_step (hs, None) l = (hs, None)"
  by (simp add: hunk_step_def)

lemma hunkMatch_header_old: "hunkMatch (''--- a/'' @ p) = None"
  by (simp add: hunkMatch_def)

lemma hunkMatch_header_new: "hunkMatch (''+++ b/'' @ p) = None"
  by (simp add: hunkMatch_def)

lemma hunk_step_range:
  "hunk_step ([], None) (range_line a b) =
     ([], Some \<lparr>oldStart = 1, oldLines = a, newStart = 1, newLines = b, lines = []\<rparr>)"
  by (simp add: hunk_step_def hunkMatch_range_line count_or_one_def show_nat_not_Nil
      parseInt_show_nat) (simp add: parseInt_def)

lemma extractHunks_one_hunk:
  assumes "hunkMatch h1 = None" and "hunkMatch h2 = None"
    and "hunk_step ([], None) r = ([], Some hk)"
    and "\<forall>l \<in> set body. body_line l"
  shows "extractHunks ([h1, h2, r] @ body) = [hk\<lparr>lines := lines hk @ body\<rparr>]"
proof -
  have "foldl hunk_step ([], None) ([h1, h2, r] @ body) = foldl hunk_step ([], Some hk) body"
    using assms(1-3) by (simp add: hunk_step_skip)
  also have "\<dots> = ([], Some (hk\<lparr>lines := lines hk @ body\<rparr>))"
    using assms(4) by (rule foldl_hunk_step_body)
  finally show ?thesis
    by (simp add: extractHunks_def finish_hunks_def)
qed

lemma extractHunks_generated:
  "extractHunks ([''--- a/'' @ p, ''+++ b/'' @ p, range_line a b] @ diff_body xs ys) =
     [\<lparr>oldStart = 1, oldLines = a, newStart = 1, newLines = b, lines = diff_body xs ys\<rparr>]"
proof -
  have "\<forall>l \<in> set (diff_body xs ys). body_line l"
    by (simp add: diff_body_body)
  from extractHunks_one_hunk [OF hunkMatch_header_old hunkMatch_header_new hunk_step_range this]
  show ?thesis by simp
qed

lemma diff_line_no_newline:
  "(\<forall>l. a = Some l \<longrightarrow> newline \<notin> set l) \<Longrightarrow> (\<forall>l. b = Some l \<longrightarrow> newline \<notin> set l) \<Longrightarrow>
   l \<in> set (diff_line a b) \<Longrightarrow> newline \<notin> set l"
  by (cases a; cases b) (auto simp: diff_line_def split: if_splits)

lemma nth_opt_in_set: "nth_opt xs i = Some l \<Longrightarrow> l \<in> set xs"
  by (auto simp: nth_opt_def split: if_splits)

lemma diff_body_no_newline:
  assumes "\<forall>l \<in> set xs. newline \<notin> set l" and "\<forall>l \<in> set ys. newline \<notin> set l"
    and "l \<in> set (diff_body xs ys)"
  shows "newline \<notin> set l"
proof -
  from assms(3) obtain i where "l \<in> set (diff_line (nth_opt xs i) (nth_opt ys i))"
    by (auto simp: diff_body_def)
  moreover have "\<forall>l. nth_opt xs i = Some l \<longrightarrow> newline \<notin> set l"
    using assms(1) by (auto dest: nth_opt_in_set)
  moreover have "\<forall>l. nth_opt ys i = Some l \<longrightarrow> newline \<notin> set l"
    using assms(2) by (auto dest: nth_opt_in_set)
  ultimately show ?thesis
    by (rule diff_line_no_newline [rotated 2])
qed

lemma range_line_no_newline: "newline \<notin> set (range_line a b)"
proof -
  have "\<not> is_digit newline" by (simp add: is_digit_def)
  then have "newline \<notin> set (show_nat a)" "newline \<notin> set (show_nat b)"
    by (auto dest: show_nat_digits)
  then show ?thesis by (simp add: range_line_def)
qed

lemma generated_lines:
  "newline \<notin> set p \<Longrightarrow>
   split_lines (generateUnifiedDiff orig modif p) =
     [''--- a/'' @ p, ''+++ b/'' @ p,
      range_line (length (split_lines orig)) (length (split_lines modif))]
     @ diff_body (split_lines orig) (split_lines modif)"
proof -
  assume p: "newline \<notin> set p"
  let ?ls = "[''--- a/'' @ p, ''+++ b/'' @ p,
      range_line (length (split_lines orig)) (length (split_lines modif))]
     @ diff_body (split_lines orig) (split_lines modif)"
  have body: "\<forall>l \<in> set (diff_body (split_lines orig) (split_lines modif)). newline \<notin> set l"
    using diff_body_no_newline [of "split_lines orig" "split_lines modif"]
    by (meson split_lines_no_newline)
  have "\<forall>l \<in> set ?ls. newline \<notin> set l"
    using p body by (simp add: range_line_no_newline)
  then have "split_lines (join_lines ?ls) = ?ls"
    by (intro split_join) simp_all
  moreover have "generateUnifiedDiff orig modif p = join_lines ?ls"
    by (simp add: generateUnifiedDiff_def Let_def split_lines_not_Nil)
  ultimately show ?thesis by simp
qed

lemma extractHunks_generateUnifiedDiff:
  "newline \<notin> set p \<Longrightarrow>
   extractHunks (split_lines (generateUnifiedDiff orig modif p)) =
     [\<lparr>oldStart = 1, oldLines = length (split_lines orig),
       newStart = 1, newLines = length (split_lines modif),
       lines = diff_body (split_lines orig) (split_lines modif)\<rparr>]"
proof -
  assume "newline \<notin> set p"
  then have "split_lines (generateUnifiedDiff orig modif p) =
     [''--- a/'' @ p, ''+++ b/'' @ p,
      range_line (length (split_lines orig)) (length (split_lines modif))]
     @ diff_body (split_lines orig) (split_lines modif)"
    by (rule generated_lines)
  then show ?thesis
    by (simp only: extractHunks_generated)
qed

section \<open>The hunk that generateUnifiedDiff writes\<close>

lemma hunk_ops_eq:
  "newline \<notin> set p \<Longrightarrow> hunk_ops orig modif p = diff_body (split_lines orig) (split_lines modif)"
  by (simp add: hunk_ops_def extractHunks_generateUnifiedDiff)

lemma diff_line_old_side:
  "length (filter old_side (diff_line a b)) = (case a of None \<Rightarrow> if b = None then 1 else 0 | Some _ \<Rightarrow> 1)"
  by (auto simp: diff_line_def old_side_def startsWith_def split: option.splits)

lemma diff_line_new_side:
  "length (filter new_side (diff_line a b)) = (case b of None \<Rightarrow> if a = None then 1 else 0 | Some _ \<Rightarrow> 1)"
  by (auto simp: diff_line_def new_side_def startsWith_def split: option.splits)

lemma old_side_Nil: "length (filter old_side (diff_body [] ys)) = 0"
  by (induction ys) (simp_all add: diff_body_Nil_Nil diff_body_Nil_Cons diff_line_old_side)

lemma new_side_Nil: "length (filter new_side (diff_body xs [])) = 0"
  by (induction xs) (simp_all add: diff_body_Nil_Nil diff_body_Cons_Nil diff_line_new_side)

lemma old_side_count: "length (filter old_side (diff_body xs ys)) = length xs"
proof (induction xs arbitrary: ys)
  case Nil
  show ?case using old_side_Nil by simp
next
  case (Cons x xs)
  show ?case
    by (cases ys) (simp_all add: diff_body_Cons_Nil diff_body_Cons_Cons diff_line_old_side Cons.IH)
qed

lemma new_side_count: "length (filter new_side (diff_body xs ys)) = length ys"
proof (induction ys arbitrary: xs)
  case Nil
  show ?case using new_side_Nil by simp
next
  case (Cons y ys)
  show ?case
    by (cases xs) (simp_all add: diff_body_Nil_Cons diff_body_Cons_Cons diff_line_new_side Cons.IH)
qed

lemma diff_body_same: "diff_body xs xs = map ((#) (CHR '' '')) xs"
  by (induction xs) (simp_all add: diff_body_Nil_Nil diff_body_Cons_Cons diff_line_def)

lemma equal_lines_append: "equal_lines (xs @ ys) = equal_lines xs @ equal_lines ys"
  by (simp add: equal_lines_def)

lemma equal_lines_diff_line:
  "equal_lines (diff_line (Some x) (Some y)) = (if x = y then [x] else [])"
  by (simp add: equal_lines_def diff_line_def startsWith_def)

lemma equal_lines_Cons_Nil: "equal_lines (diff_body xs []) = []"
  by (induction xs)
     (simp_all add: diff_body_Nil_Nil diff_body_Cons_Nil equal_lines_append,
      simp_all add: equal_lines_def diff_line_def startsWith_def)

lemma equal_lines_Nil_Cons: "equal_lines (diff_body [] ys) = []"
  by (induction ys)
     (simp_all add: diff_body_Nil_Nil diff_body_Nil_Cons equal_lines_append,
      simp_all add: equal_lines_def diff_line_def startsWith_def)

lemma equal_lines_positional:
  "equal_lines (diff_body xs ys) = map fst (filter (\<lambda>(a, b). a = b) (zip xs ys))"
proof (induction xs arbitrary: ys)
  case Nil
  show ?case by (simp add: equal_lines_Nil_Cons)
next
  case (Cons x xs)
  show ?case
    by (cases ys)
       (simp_all add: equal_lines_Cons_Nil diff_body_Cons_Cons equal_lines_append
          equal_lines_diff_line Cons.IH)
qed

lemma positional_subseq_left: "subseq (map fst (filter (\<lambda>(a, b). a = b) (zip xs ys))) xs"
proof (induction xs arbitrary: ys)
  case Nil
  show ?case by simp
next
  case (Cons x xs)
  show ?case by (cases ys) (auto simp: Cons.IH intro: list_emb_Cons)
qed

lemma positional_subseq_right: "subseq (map fst (filter (\<lambda>(a, b). a = b) (zip xs ys))) ys"
proof (induction xs arbitrary: ys)
  case Nil
  show ?case by simp
next
  case (Cons x xs)
  show ?case by (cases ys) (auto simp: Cons.IH intro: list_emb_Cons)
qed

lemma hunk_step_ignored:
  "hunkMatch l = None \<Longrightarrow> \<not> body_line l \<Longrightarrow> hunk_step st l = st"
  by (cases st) (simp add: hunk_step_def split: option.splits)

lemma extractHunks_skip:
  "hunkMatch l = None \<Longrightarrow> \<not> body_line l \<Longrightarrow>
   extractHunks (pre @ l # post) = extractHunks (pre @ post)"
  by (simp add: extractHunks_def hunk_step_ignored)

lemma parseUnifiedDiff_skip:
  assumes "hunkMatch l = None" and "\<not> body_line l"
    and "newline \<notin> set (concat (pre @ l # post))" and "pre @ post \<noteq> []"
  shows "parseUnifiedDiff (join_lines (pre @ l # post)) = parseUnifiedDiff (join_lines (pre @ post))"
proof -
  have "split_lines (join_lines (pre @ l # post)) = pre @ l # post"
    using assms(3) by (intro split_join) auto
  moreover have "split_lines (join_lines (pre @ post)) = pre @ post"
    using assms(3,4) by (intro split_join) auto
  ultimately show ?thesis
    using assms(1,2) by (simp add: parseUnifiedDiff_def extractHunks_skip)
qed

lemma foldl_upt_shift:
  assumes "\<And>a i. f a (Suc i) = g a i"
  shows "foldl f a [0 ..< Suc n] = foldl g (f a 0) [0 ..< n]"
proof -
  have "foldl f a [0 ..< Suc n] = foldl (\<lambda>a i. f a (Suc i)) (f a 0) [0 ..< n]"
    by (simp add: upt_0_Suc foldl_map del: upt_Suc)
  then show ?thesis by (simp add: assms)
qed

lemma parse_line_added:
  "length (fst (snd (snd (foldl parse_line (a, b, A, R) ls))))
     = length A + length (filter insert_line ls)"
  by (induction ls arbitrary: a b A R) (simp_all add: parse_line_def insert_line_def)

lemma parse_line_removed:
  "length (snd (snd (snd (foldl parse_line (a, b, A, R) ls))))
     = length R + length (filter delete_line ls)"
  by (induction ls arbitrary: a b A R)
     (auto simp: parse_line_def delete_line_def startsWith_def split: list.splits)

lemma parse_one_hunk_stats:
  "extractHunks (split_lines t) = [h] \<Longrightarrow>
   additions (stats (parseUnifiedDiff t)) = length (filter insert_line (lines h))
   \<and> deletions (stats (parseUnifiedDiff t)) = length (filter delete_line (lines h))"
  using parse_line_added [of "oldStart h" "newStart h" "[]" "[]" "lines h"]
        parse_line_removed [of "oldStart h" "newStart h" "[]" "[]" "lines h"]
  by (auto simp: parseUnifiedDiff_def parse_hunk_def split: prod.splits)

lemma stats_step_shift:
  "stats_step (x # xs) (y # ys) acc (Suc i) = stats_step xs ys acc i"
  "stats_step (x # xs) [] acc (Suc i) = stats_step xs [] acc i"
  "stats_step [] (y # ys) acc (Suc i) = stats_step [] ys acc i"
  by (simp_all add: stats_step_def)

lemma plus_diff_line:
  "length (filter insert_line (diff_line a b)) = (if a \<noteq> b \<and> b \<noteq> None then 1 else 0)"
  by (auto simp: diff_line_def insert_line_def startsWith_def split: option.splits)

lemma minus_diff_line:
  "length (filter delete_line (diff_line a b)) = (if a \<noteq> b \<and> a \<noteq> None then 1 else 0)"
  by (auto simp: diff_line_def delete_line_def startsWith_def split: option.splits)

lemma stats_step_0:
  "additionsCount (stats_step xs ys acc 0)
     = additionsCount acc + length (filter insert_line (diff_line (nth_opt xs 0) (nth_opt ys 0)))"
  "deletionsCount (stats_step xs ys acc 0)
     = deletionsCount acc + length (filter delete_line (diff_line (nth_opt xs 0) (nth_opt ys 0)))"
  by (auto simp: stats_step_def Let_def plus_diff_line minus_diff_line)

lemma stats_fold_Nil:
  "additionsCount (foldl (stats_step [] ys) acc [0 ..< length ys])
     = additionsCount acc + length (filter insert_line (diff_body [] ys))
   \<and> deletionsCount (foldl (stats_step [] ys) acc [0 ..< length ys])
     = deletionsCount acc + length (filter delete_line (diff_body [] ys))"
proof (induction ys arbitrary: acc)
  case Nil
  show ?case by (simp add: diff_body_Nil_Nil)
next
  case (Cons y ys)
  have "foldl (stats_step [] (y # ys)) acc [0 ..< Suc (length ys)]
          = foldl (stats_step [] ys) (stats_step [] (y # ys) acc 0) [0 ..< length ys]"
    by (rule foldl_upt_shift) (rule stats_step_shift)
  then show ?case
    by (simp add: Cons.IH stats_step_0 diff_body_Nil_Cons del: upt_Suc)
qed

lemma stats_fold:
  "additionsCount (foldl (stats_step xs ys) acc [0 ..< max (length xs) (length ys)])
     = additionsCount acc + length (filter insert_line (diff_body xs ys))
   \<and> deletionsCount (foldl (stats_step xs ys) acc [0 ..< max (length xs) (length ys)])
     = deletionsCount acc + length (filter delete_line (diff_body xs ys))"
proof (induction xs arbitrary: ys acc)
  case Nil
  show ?case using stats_fold_Nil [of ys acc] by simp
next
  case (Cons x xs)
  show ?case
  proof (cases ys)
    case Nil
    have "foldl (stats_step (x # xs) []) acc [0 ..< Suc (length xs)]
            = foldl (stats_step xs []) (stats_step (x # xs) [] acc 0) [0 ..< length xs]"
      by (rule foldl_upt_shift) (rule stats_step_shift)
    then show ?thesis
      using Cons.IH [of "[]" "stats_step (x # xs) [] acc 0"]
      by (simp add: Nil stats_step_0 diff_body_Cons_Nil del: upt_Suc)
  next
    case (Cons y ys')
    have "foldl (stats_step (x # xs) (y # ys')) acc [0 ..< Suc (max (length xs) (length ys'))]
            = foldl (stats_step xs ys') (stats_step (x # xs) (y # ys') acc 0)
                [0 ..< max (length xs) (length ys')]"
      by (rule foldl_upt_shift) (rule stats_step_shift)
    then show ?thesis
      using Cons.IH [of ys' "stats_step (x # xs) (y # ys') acc 0"]
      by (simp add: Cons stats_step_0 diff_body_Cons_Cons del: upt_Suc)
  qed
qed

lemma calculateStats_counts:
  "additionsCount (calculateStats orig modif)
     = length (filter insert_line (diff_body (split_lines orig) (split_lines modif)))
   \<and> deletionsCount (calculateStats orig modif)
     = length (filter delete_line (diff_body (split_lines orig) (split_lines modif)))"
  using stats_fold [of "split_lines orig" "split_lines modif"
      "\<lparr>additionsCount = 0, deletionsCount = 0, unchanged = 0\<rparr>"]
  by (simp add: calculateStats_def Let_def)

lemma parseUnifiedDiff_hunks:
  "parseUnifiedDiff t = parse_hunks (extractHunks (split_lines t))"
  by (simp add: parseUnifiedDiff_def parse_hunks_def)

lemma parse_hunk_declare: "parse_hunk acc (declare_counts b d h) = parse_hunk acc h"
  by (simp add: parse_hunk_def declare_counts_def)

lemma foldl_parse_hunk_declare:
  "foldl parse_hunk acc (map (\<lambda>h. declare_counts (f h) (g h) h) hs) = foldl parse_hunk acc hs"
  by (induction hs arbitrary: acc) (simp_all add: parse_hunk_declare)

lemma parse_hunks_declare:
  "parse_hunks (map (\<lambda>h. declare_counts (f h) (g h) h) hs) = parse_hunks hs"
  by (simp add: parse_hunks_def foldl_parse_hunk_declare)

lemma hunkMatch_range_header:
  "hunkMatch (range_header a b c d) = Some (show_nat a, show_nat b, show_nat c, show_nat d)"
proof -
  have da: "\<forall>x \<in> set (show_nat a). is_digit x" and db: "\<forall>x \<in> set (show_nat b). is_digit x"
    and dc: "\<forall>x \<in> set (show_nat c). is_digit x" and dd: "\<forall>x \<in> set (show_nat d). is_digit x"
    by (simp_all add: show_nat_digits)
  show ?thesis
    by (simp add: hunkMatch_def range_header_def opt_comma_def Let_def not_digit_comma
        not_digit_space show_nat_not_Nil
        takeWhile_digits [OF da] dropWhile_digits [OF da]
        takeWhile_digits [OF db] dropWhile_digits [OF db]
        takeWhile_digits [OF dc] dropWhile_digits [OF dc]
        takeWhile_digits [OF dd] dropWhile_digits [OF dd])
qed

lemma declare_lines: "declare_counts b d (h\<lparr>lines := ls\<rparr>) = (declare_counts b d h)\<lparr>lines := ls\<rparr>"
  "lines (declare_counts b d h) = lines h"
  by (simp_all add: declare_counts_def)

lemma erase_hunk_step_commute: "erase_counts (hunk_step st l) = erase_counts (hunk_step (erase_counts st) l)"
proof (cases st)
  case (Pair hs c)
  show ?thesis
  proof (cases "hunkMatch l")
    case None
    then show ?thesis
      by (cases c) (simp_all add: Pair erase_counts_def hunk_step_def declare_counts_def)
  next
    case (Some g)
    then show ?thesis
      by (cases c; cases g)
         (simp_all add: Pair erase_counts_def hunk_step_def declare_counts_def)
  qed
qed

lemma erase_hunk_step:
  "erase_counts st = erase_counts st' \<Longrightarrow> erase_counts (hunk_step st l) = erase_counts (hunk_step st' l)"
proof -
  assume e: "erase_counts st = erase_counts st'"
  have "erase_counts (hunk_step st l) = erase_counts (hunk_step (erase_counts st) l)"
    by (rule erase_hunk_step_commute)
  also have "\<dots> = erase_counts (hunk_step (erase_counts st') l)"
    by (simp only: e)
  also have "\<dots> = erase_counts (hunk_step st' l)"
    by (rule erase_hunk_step_commute [symmetric])
  finally show ?thesis .
qed

lemma erase_foldl:
  "erase_counts st = erase_counts st' \<Longrightarrow> erase_counts (foldl hunk_step st ls) = erase_counts (foldl hunk_step st' ls)"
proof (induction ls arbitrary: st st')
  case Nil
  then show ?case by simp
next
  case (Cons l ls)
  from Cons.prems have "erase_counts (hunk_step st l) = erase_counts (hunk_step st' l)"
    by (rule erase_hunk_step)
  then have "erase_counts (foldl hunk_step (hunk_step st l) ls) = erase_counts (foldl hunk_step (hunk_step st' l) ls)"
    by (rule Cons.IH)
  then show ?case by simp
qed

lemma erase_range_header:
  "erase_counts (hunk_step st (range_header a b c d)) = erase_counts (hunk_step st (range_header a b' c d'))"
  by (cases st) (simp add: erase_counts_def hunk_step_def hunkMatch_range_header declare_counts_def)

lemma erase_finish_commute:
  "map (declare_counts 0 0) (finish_hunks st) = finish_hunks (erase_counts st)"
  by (cases st; cases "snd st") (auto simp: erase_counts_def finish_hunks_def)

lemma erase_finish:
  "erase_counts st = erase_counts st' \<Longrightarrow>
   map (declare_counts 0 0) (finish_hunks st) = map (declare_counts 0 0) (finish_hunks st')"
  by (simp add: erase_finish_commute)

lemma extractHunks_counts:
  "map (declare_counts 0 0) (extractHunks (pre @ range_header a b c d # rest))
     = map (declare_counts 0 0) (extractHunks (pre @ range_header a b' c d' # rest))"
proof -
  let ?st = "foldl hunk_step ([], None) pre"
  have "erase_counts (hunk_step ?st (range_header a b c d)) = erase_counts (hunk_step ?st (range_header a b' c d'))"
    by (rule erase_range_header)
  then have "erase_counts (foldl hunk_step (hunk_step ?st (range_header a b c d)) rest)
           = erase_counts (foldl hunk_step (hunk_step ?st (range_header a b' c d')) rest)"
    by (rule erase_foldl)
  then have "map (declare_counts 0 0)
               (finish_hunks (foldl hunk_step (hunk_step ?st (range_header a b c d)) rest))
           = map (declare_counts 0 0)
               (finish_hunks (foldl hunk_step (hunk_step ?st (range_header a b' c d')) rest))"
    by (rule erase_finish)
  then show ?thesis by (simp add: extractHunks_def)
qed

lemma range_header_no_newline: "newline \<notin> set (range_header a b c d)"
proof -
  have "\<not> is_digit newline" by (simp add: is_digit_def)
  then have "newline \<notin> set (show_nat n)" for n
    by (auto dest: show_nat_digits)
  then show ?thesis by (simp add: range_header_def)
qed

lemma parseUnifiedDiff_counts:
  assumes "newline \<notin> set (concat (pre @ rest))"
  shows "parseUnifiedDiff (join_lines (pre @ range_header a b c d # rest))
           = parseUnifiedDiff (join_lines (pre @ range_header a b' c d' # rest))"
proof -
  have s: "split_lines (join_lines (pre @ range_header a x c y # rest))
             = pre @ range_header a x c y # rest" for x y
    using assms range_header_no_newline [of a x c y] by (intro split_join) auto
  have "parse_hunks (extractHunks (pre @ range_header a b c d # rest))
          = parse_hunks (map (declare_counts 0 0) (extractHunks (pre @ range_header a b c d # rest)))"
    by (simp add: parse_hunks_declare)
  also have "\<dots> = parse_hunks (map (declare_counts 0 0)
                       (extractHunks (pre @ range_header a b' c d' # rest)))"
    by (simp only: extractHunks_counts [of pre a b c d rest b' d'])
  also have "\<dots> = parse_hunks (extractHunks (pre @ range_header a b' c d' # rest))"
    by (simp add: parse_hunks_declare)
  finally show ?thesis by (simp add: parseUnifiedDiff_hunks s)
qed

section \<open>Properties of the diff functions\<close>

subsection \<open>Alignment of the two line sequences\<close>

text \<open>
  Claim C2 says that the Equal ops which the diff emits form a longest common subsequence
  of the two inputs. \<open>generateUnifiedDiff\<close> pairs line \<open>i\<close> of the original with line
  \<open>i\<close> of the modified text. For the original \<open>a, b\<close> and the modified
  \<open>x, a, b\<close> it emits no Equal op at all, although \<open>a, b\<close> is a common subsequence
  of length two.
\<close>

theorem equal_ops_not_longest_counterexample:
  "equal_lines (hunk_ops (''a'' @ [newline] @ ''b'') (''x'' @ [newline] @ ''a'' @ [newline] @ ''b'') ''file'') = []
   \<and> subseq [''a'', ''b''] (split_lines (''a'' @ [newline] @ ''b''))
   \<and> subseq [''a'', ''b''] (split_lines (''x'' @ [newline] @ ''a'' @ [newline] @ ''b''))"
  by code_simp

text \<open>
  Claim C2, as the code has it: the Equal ops of the hunk are the lines at which the two
  sequences agree position by position; they form a common subsequence of the two inputs
  (not always a longest one).
\<close>

theorem equal_ops_positional:
  assumes "newline \<notin> set p"
  shows "equal_lines (hunk_ops orig modif p)
           = map fst (filter (\<lambda>(a, b). a = b) (zip (split_lines orig) (split_lines modif)))
       \<and> subseq (equal_lines (hunk_ops orig modif p)) (split_lines orig)
       \<and> subseq (equal_lines (hunk_ops orig modif p)) (split_lines modif)"
  using assms
  by (simp add: hunk_ops_eq equal_lines_positional positional_subseq_left positional_subseq_right)

theorem equal_ops_positional_witness:
  "newline \<notin> set ''file''
   \<and> equal_lines (hunk_ops (''a'' @ [newline] @ ''b'' @ [newline] @ ''c'')
                             (''a'' @ [newline] @ ''x'' @ [newline] @ ''c'') ''file'')
       = [''a'', ''c'']
   \<and> subseq (equal_lines (hunk_ops (''a'' @ [newline] @ ''b'' @ [newline] @ ''c'')
                                     (''a'' @ [newline] @ ''x'' @ [newline] @ ''c'') ''file''))
              (split_lines (''a'' @ [newline] @ ''b'' @ [newline] @ ''c''))
   \<and> subseq (equal_lines (hunk_ops (''a'' @ [newline] @ ''b'' @ [newline] @ ''c'')
                                     (''a'' @ [newline] @ ''x'' @ [newline] @ ''c'') ''file''))
              (split_lines (''a'' @ [newline] @ ''x'' @ [newline] @ ''c''))"
proof -
  have p: "newline \<notin> set ''file''" by simp
  from equal_ops_positional [OF p, of "''a'' @ [newline] @ ''b'' @ [newline] @ ''c''"
      "''a'' @ [newline] @ ''x'' @ [newline] @ ''c''"]
  show ?thesis by simp
qed

subsection \<open>Parsing what is not a unified diff\<close>

text \<open>
  Claim C4 says that \<open>parse\<close> fails with \<open>MalformedDiffError\<close> on a malformed range
  line, on a body line without a valid prefix and on declared counts that differ from the
  lines consumed, and in particular on \<open>"@@ bad @@\n+x"\<close>. \<open>parseUnifiedDiff\<close>
  throws nothing: on that text it returns a result, the empty one.
\<close>

theorem parse_bad_range_counterexample:
  "parseUnifiedDiff (''@@ bad @@'' @ [newline] @ ''+x'') =
     \<lparr>addedLines = [], removedLines = [], modifiedLines = [],
      stats = \<lparr>additions = 0, deletions = 0, changes = 0\<rparr>\<rparr>"
  by code_simp

text \<open>
  Claim C4, as the code has it: \<open>parseUnifiedDiff\<close> has no \<open>throw\<close> and returns a
  result for every text. A line that does not match the range expression and has none of
  the three prefixes is skipped, wherever it stands: the text parses as it does without
  that line. The declared counts of a hunk are not compared with its lines: the result is
  what the loop makes of the hunks with any other counts in their place, and two texts
  that differ in the declared counts of a range line only parse to the same result. And
  \<open>"@@ bad @@\n+x"\<close> parses to the empty result.
\<close>

theorem parse_skips_malformed:
  "(hunkMatch l = None \<and> \<not> body_line l \<and> newline \<notin> set (concat (pre @ l # post))
      \<and> pre @ post \<noteq> [] \<longrightarrow>
      parseUnifiedDiff (join_lines (pre @ l # post)) = parseUnifiedDiff (join_lines (pre @ post)))
   \<and> parseUnifiedDiff t
       = parse_hunks (map (\<lambda>h. declare_counts (f h) (g h) h) (extractHunks (split_lines t)))
   \<and> (newline \<notin> set (concat (before @ rest)) \<longrightarrow>
        parseUnifiedDiff (join_lines (before @ range_header a b c d # rest))
          = parseUnifiedDiff (join_lines (before @ range_header a b' c d' # rest)))
   \<and> parseUnifiedDiff (''@@ bad @@'' @ [newline] @ ''+x'') =
     \<lparr>addedLines = [], removedLines = [], modifiedLines = [],
      stats = \<lparr>additions = 0, deletions = 0, changes = 0\<rparr>\<rparr>"
proof -
  have "parseUnifiedDiff (''@@ bad @@'' @ [newline] @ ''+x'') =
     \<lparr>addedLines = [], removedLines = [], modifiedLines = [],
      stats = \<lparr>additions = 0, deletions = 0, changes = 0\<rparr>\<rparr>"
    by code_simp
  moreover have "parseUnifiedDiff t
       = parse_hunks (map (\<lambda>h. declare_counts (f h) (g h) h) (extractHunks (split_lines t)))"
    by (simp only: parseUnifiedDiff_hunks parse_hunks_declare)
  ultimately show ?thesis
    using parseUnifiedDiff_skip [of l pre post] parseUnifiedDiff_counts [of before rest a b c d b' d']
    by blast
qed

theorem parse_skips_malformed_witness:
  "hunkMatch ''@@ bad @@'' = None \<and> \<not> body_line ''@@ bad @@''
   \<and> newline \<notin> set (concat ([''@@ -1,5 +1,5 @@''] @ ''@@ bad @@'' # [''foo'', ''+x'']))
   \<and> [''@@ -1,5 +1,5 @@''] @ [''foo'', ''+x''] \<noteq> []
   \<and> parseUnifiedDiff (join_lines ([''@@ -1,5 +1,5 @@''] @ ''@@ bad @@'' # [''foo'', ''+x'']))
       = parseUnifiedDiff (join_lines ([''@@ -1,5 +1,5 @@''] @ [''foo'', ''+x'']))
   \<and> newline \<notin> set (concat ([''--- a/f''] @ [''+x'', '' y'']))
   \<and> parseUnifiedDiff (join_lines ([''--- a/f''] @ range_header 1 5 1 5 # [''+x'', '' y'']))
       = parseUnifiedDiff (join_lines ([''--- a/f''] @ range_header 1 0 1 2 # [''+x'', '' y'']))
   \<and> parseUnifiedDiff (join_lines ([''--- a/f''] @ range_header 1 5 1 5 # [''+x'', '' y'']))
       = \<lparr>addedLines = [\<lparr>lineNumber = 1, type = Added, content = ''x''\<rparr>],
          removedLines = [], modifiedLines = [],
          stats = \<lparr>additions = 1, deletions = 0, changes = 0\<rparr>\<rparr>"
proof -
  have a: "hunkMatch ''@@ bad @@'' = None" by code_simp
  have b: "\<not> body_line ''@@ bad @@''" by code_simp
  have c: "newline \<notin> set (concat ([''@@ -1,5 +1,5 @@''] @ ''@@ bad @@'' # [''foo'', ''+x'']))"
    by simp
  have d: "[''@@ -1,5 +1,5 @@''] @ [''foo'', ''+x''] \<noteq> []" by simp
  have e: "newline \<notin> set (concat ([''--- a/f''] @ [''+x'', '' y'']))" by simp
  have f: "parseUnifiedDiff (join_lines ([''--- a/f''] @ range_header 1 5 1 5 # [''+x'', '' y'']))
       = \<lparr>addedLines = [\<lparr>lineNumber = 1, type = Added, content = ''x''\<rparr>],
          removedLines = [], modifiedLines = [],
          stats = \<lparr>additions = 1, deletions = 0, changes = 0\<rparr>\<rparr>"
    by code_simp
  from a b c d e f
    parse_skips_malformed [where l = "''@@ bad @@''" and pre = "[''@@ -1,5 +1,5 @@'']"
      and post = "[''foo'', ''+x'']" and before = "[''--- a/f'']" and rest = "[''+x'', '' y'']"
      and a = 1 and b = 5 and c = 1 and d = 5 and b' = 0 and d' = 2]
  show ?thesis by blast
qed

subsection \<open>Parsing what generateUnifiedDiff wrote\<close>

text \<open>
  Claim C5 says that parsing the serialized diff of two texts gives the diff of the two
  texts back. The source computes a \<open>ParsedDiff\<close> of two texts with
  \<open>compareLineByLine\<close>, and \<open>parseUnifiedDiff\<close> of the text that
  \<open>generateUnifiedDiff\<close> writes can be another value: for \<open>a\<close> against \<open>b\<close> the
  first has one modified line, numbered from zero, the second one removed and one added
  line, numbered from one. Nor can the result of \<open>parseUnifiedDiff\<close> stand for the diff in
  any other form: it drops the Equal lines, so the diffs of \<open>a, b\<close> against \<open>a, c\<close>
  and of \<open>z, b\<close> against \<open>z, c\<close>, which differ, parse to the same value.
\<close>

theorem parse_generate_counterexample:
  "parseUnifiedDiff (generateUnifiedDiff ''a'' ''b'' ''file'') \<noteq> compareLineByLine ''a'' ''b''
   \<and> generateUnifiedDiff (''a'' @ [newline] @ ''b'') (''a'' @ [newline] @ ''c'') ''file''
       \<noteq> generateUnifiedDiff (''z'' @ [newline] @ ''b'') (''z'' @ [newline] @ ''c'') ''file''
   \<and> parseUnifiedDiff
         (generateUnifiedDiff (''a'' @ [newline] @ ''b'') (''a'' @ [newline] @ ''c'') ''file'')
       = parseUnifiedDiff
         (generateUnifiedDiff (''z'' @ [newline] @ ''b'') (''z'' @ [newline] @ ''c'') ''file'')"
  by code_simp

text \<open>
  Claim C5, as the code has it: from the text that \<open>generateUnifiedDiff\<close> writes (for a
  file path without a line break), \<open>extractHunks\<close> reads back the one hunk that was
  written, with its range and its lines; \<open>parseUnifiedDiff\<close> of that text has no
  modified lines, and its numbers of additions and deletions are those of
  \<open>calculateStats\<close> on the two texts.
\<close>

theorem parse_recovers_generated:
  assumes "newline \<notin> set p"
  shows "extractHunks (split_lines (generateUnifiedDiff orig modif p)) =
           [\<lparr>oldStart = 1, oldLines = length (split_lines orig),
             newStart = 1, newLines = length (split_lines modif),
             lines = diff_body (split_lines orig) (split_lines modif)\<rparr>]
       \<and> modifiedLines (parseUnifiedDiff (generateUnifiedDiff orig modif p)) = []
       \<and> additions (stats (parseUnifiedDiff (generateUnifiedDiff orig modif p)))
           = additionsCount (calculateStats orig modif)
       \<and> deletions (stats (parseUnifiedDiff (generateUnifiedDiff orig modif p)))
           = deletionsCount (calculateStats orig modif)"
proof -
  let ?t = "generateUnifiedDiff orig modif p"
  let ?h = "\<lparr>oldStart = 1, oldLines = length (split_lines orig),
             newStart = 1, newLines = length (split_lines modif),
             lines = diff_body (split_lines orig) (split_lines modif)\<rparr>"
  have h: "extractHunks (split_lines ?t) = [?h]"
    using assms by (rule extractHunks_generateUnifiedDiff)
  have m: "modifiedLines (parseUnifiedDiff ?t) = []"
    by (simp add: parseUnifiedDiff_def split: prod.splits)
  from parse_one_hunk_stats [OF h] calculateStats_counts [of orig modif] h m
  show ?thesis by simp
qed

theorem parse_recovers_generated_witness:
  "newline \<notin> set ''file''
   \<and> extractHunks (split_lines (generateUnifiedDiff ''a'' (''b'' @ [newline] @ ''c'') ''file'')) =
        [\<lparr>oldStart = 1, oldLines = 1, newStart = 1, newLines = 2,
          lines = [''-a'', ''+b'', ''+c'']\<rparr>]
   \<and> additions (stats (parseUnifiedDiff
         (generateUnifiedDiff ''a'' (''b'' @ [newline] @ ''c'') ''file''))) = 2
   \<and> deletions (stats (parseUnifiedDiff
         (generateUnifiedDiff ''a'' (''b'' @ [newline] @ ''c'') ''file''))) = 1"
proof -
  have p: "newline \<notin> set ''file''" by simp
  have b: "diff_body [''a''] [''b'', ''c''] = [''-a'', ''+b'', ''+c'']" by code_simp
  have c: "calculateStats ''a'' (''b'' @ [newline] @ ''c'')
             = \<lparr>additionsCount = 2, deletionsCount = 1, unchanged = 0\<rparr>" by code_simp
  from parse_recovers_generated [OF p, of "''a''" "''b'' @ [newline] @ ''c''"] b c
  show ?thesis by simp
qed

subsection \<open>Identical inputs\<close>

text \<open>
  Claim C6 says that the diff of a text against itself has no hunk.
  \<open>generateUnifiedDiff\<close> writes one hunk for every pair of texts: for \<open>a\<close> against
  \<open>a\<close> it is the hunk \<open>@@ -1,1 +1,1 @@\<close> with the one Equal line.
\<close>

theorem identical_inputs_counterexample:
  "extractHunks (split_lines (generateUnifiedDiff ''a'' ''a'' ''file'')) =
     [\<lparr>oldStart = 1, oldLines = 1, newStart = 1, newLines = 1, lines = ['' a'']\<rparr>]"
  by code_simp

text \<open>
  Claim C6, as the code has it: the diff of a non-empty text against itself is one hunk
  over the whole text, all of whose lines are Equal ops.
\<close>

theorem identical_inputs_one_context_hunk:
  assumes "newline \<notin> set p" and "x \<noteq> []"
  shows "extractHunks (split_lines (generateUnifiedDiff x x p)) =
           [\<lparr>oldStart = 1, oldLines = length (split_lines x),
             newStart = 1, newLines = length (split_lines x),
             lines = map ((#) (CHR '' '')) (split_lines x)\<rparr>]"
  using assms by (simp add: extractHunks_generateUnifiedDiff diff_body_same)

theorem identical_inputs_one_context_hunk_witness:
  "newline \<notin> set ''file'' \<and> ''a'' @ [newline] @ ''b'' \<noteq> []
   \<and> extractHunks (split_lines (generateUnifiedDiff (''a'' @ [newline] @ ''b'')
                                      (''a'' @ [newline] @ ''b'') ''file'')) =
        [\<lparr>oldStart = 1, oldLines = 2, newStart = 1, newLines = 2, lines = ['' a'', '' b'']\<rparr>]"
proof -
  have p: "newline \<notin> set ''file''" and x: "''a'' @ [newline] @ ''b'' \<noteq> []" by simp_all
  from identical_inputs_one_context_hunk [OF p x] show ?thesis by simp
qed

subsection \<open>The counts of a hunk\<close>

text \<open>
  Claim C7: in every hunk of the diff that \<open>generateUnifiedDiff\<close> writes, the declared
  old count is the number of Equal and Delete lines of the hunk, and the declared new
  count is the number of its Equal and Insert lines.
\<close>

theorem hunk_counts_match_ops:
  assumes "newline \<notin> set p"
    and "h \<in> set (extractHunks (split_lines (generateUnifiedDiff orig modif p)))"
  shows "oldLines h = length (filter old_side (lines h))
       \<and> newLines h = length (filter new_side (lines h))"
  using assms by (simp add: extractHunks_generateUnifiedDiff old_side_count new_side_count)

theorem hunk_counts_match_ops_witness:
  "newline \<notin> set ''file''
   \<and> \<lparr>oldStart = 1, oldLines = 3, newStart = 1, newLines = 2,
        lines = ['' a'', ''-b'', ''+x'', ''-c'']\<rparr>
       \<in> set (extractHunks (split_lines (generateUnifiedDiff
                 (''a'' @ [newline] @ ''b'' @ [newline] @ ''c'') (''a'' @ [newline] @ ''x'')
                 ''file'')))
   \<and> (3::nat) = length (filter old_side ['' a'', ''-b'', ''+x'', ''-c''])
   \<and> (2::nat) = length (filter new_side ['' a'', ''-b'', ''+x'', ''-c''])"
proof -
  have p: "newline \<notin> set ''file''" by simp
  have "extractHunks (split_lines (generateUnifiedDiff
                 (''a'' @ [newline] @ ''b'' @ [newline] @ ''c'') (''a'' @ [newline] @ ''x'')
                 ''file''))
       = [\<lparr>oldStart = 1, oldLines = 3, newStart = 1, newLines = 2,
            lines = ['' a'', ''-b'', ''+x'', ''-c'']\<rparr>]"
    by code_simp
  then have h: "\<lparr>oldStart = 1, oldLines = 3, newStart = 1, newLines = 2,
        lines = ['' a'', ''-b'', ''+x'', ''-c'']\<rparr>
       \<in> set (extractHunks (split_lines (generateUnifiedDiff
                 (''a'' @ [newline] @ ''b'' @ [newline] @ ''c'') (''a'' @ [newline] @ ''x'')
                 ''file'')))"
    by simp
  from hunk_counts_match_ops [OF p h] p h show ?thesis by simp
qed

subsection \<open>The scenario a, b, c against a, x, c\<close>

text \<open>
  Claim C8 says that the diff of \<open>a, b, c\<close> against \<open>a, x, c\<close> is one hunk with
  \<open>oldStart = 2\<close>, \<open>oldCount = 1\<close>, \<open>newStart = 2\<close> and \<open>newCount = 1\<close>. The
  hunk that \<open>generateUnifiedDiff\<close> writes starts at line one on both sides and counts
  three lines on both.
\<close>

theorem scenario_abc_axc_counterexample:
  "map (\<lambda>h. (oldStart h, oldLines h, newStart h, newLines h))
     (extractHunks (split_lines (generateUnifiedDiff
       (''a'' @ [newline] @ ''b'' @ [newline] @ ''c'')
       (''a'' @ [newline] @ ''x'' @ [newline] @ ''c'') ''file'')))
   \<noteq> [(2, 1, 2, 1)]"
  by code_simp

text \<open>
  Claim C8, as the code has it: the diff is one hunk with \<open>oldStart = 1\<close>,
  \<open>oldLines = 3\<close>, \<open>newStart = 1\<close> and \<open>newLines = 3\<close>, whose lines are Equal
  \<open>a\<close>, Delete \<open>b\<close>, Insert \<open>x\<close>, Equal \<open>c\<close>; \<open>calculateStats\<close> counts one
  addition, one deletion and two unchanged lines.
\<close>

theorem scenario_abc_axc:
  "extractHunks (split_lines (generateUnifiedDiff
       (''a'' @ [newline] @ ''b'' @ [newline] @ ''c'')
       (''a'' @ [newline] @ ''x'' @ [newline] @ ''c'') ''file'')) =
     [\<lparr>oldStart = 1, oldLines = 3, newStart = 1, newLines = 3,
       lines = ['' a'', ''-b'', ''+x'', '' c'']\<rparr>]
   \<and> calculateStats (''a'' @ [newline] @ ''b'' @ [newline] @ ''c'')
                     (''a'' @ [newline] @ ''x'' @ [newline] @ ''c'')
       = \<lparr>additionsCount = 1, deletionsCount = 1, unchanged = 2\<rparr>"
  by code_simp

section \<open>Properties of applyChanges\<close>

lemma changed_step_added:
  "list_all (\<lambda>i. i < length ys) (added acc) \<Longrightarrow>
   list_all (\<lambda>i. i < length ys) (added (changed_step xs ys acc i))"
  by (auto simp: changed_step_def Let_def nth_opt_def split: if_splits)

lemma foldl_changed_step_added:
  "list_all (\<lambda>i. i < length ys) (added acc) \<Longrightarrow>
   list_all (\<lambda>i. i < length ys) (added (foldl (changed_step xs ys) acc is))"
  by (induction "is" arbitrary: acc) (simp_all add: changed_step_added)

lemma calculateChangedLines_added:
  "list_all (\<lambda>i. i < length (split_lines n)) (added (calculateChangedLines orig n))"
  by (simp add: calculateChangedLines_def Let_def foldl_changed_step_added)

lemma highlight_returns:
  "length (split_lines n) \<le> lineCount h n \<Longrightarrow>
   highlightChangedLines h n (calculateChangedLines orig n) = None"
proof -
  assume "length (split_lines n) \<le> lineCount h n"
  then have "list_all (\<lambda>i. i < lineCount h n) (added (calculateChangedLines orig n))"
    using calculateChangedLines_added [of n orig]
    by (auto simp: list_all_iff)
  then show ?thesis by (simp add: highlightChangedLines_def)
qed

lemma replace_full: "replace_range text 0 (length text) new = new"
  by (simp add: replace_range_def)

lemma applyChanges_existing:
  "ws path = Some live \<Longrightarrow>
   applyChanges h ws path n =
     (if \<not> editOk h then (ws, Inl (failed ''Failed to apply workspace edit''))
      else (ws(path \<mapsto> n),
            case saveError h of
              Some message \<Rightarrow> Inl (failed message)
            | None \<Rightarrow>
                (case showError h of
                   Some message \<Rightarrow> Inl (failed message)
                 | None \<Rightarrow>
                     (case highlightChangedLines h n (calculateChangedLines live n) of
                        Some message \<Rightarrow> Inl (failed message)
                      | None \<Rightarrow> Inr (calculateChangedLines live n)))))"
  by (simp add: applyChanges_def replace_full Let_def split: option.splits)


subsection \<open>Applying a proposal\<close>




subsection \<open>A document that has changed since the proposal\<close>

text \<open>
  Claim C3 says that applying a diff fails with \<open>DiffConflictError\<close> when the live
  text differs from the old text inside the window of a hunk. The proposal \<open>a, x, c\<close>
  was computed from \<open>a, b, c\<close>, and its hunk covers lines one to three; the live
  document has become \<open>a, Z, c\<close>. \<open>applyChanges\<close> returns without an error and the
  document is \<open>a, x, c\<close>.
\<close>

theorem apply_conflict_counterexample:
  "extractHunks (split_lines (generateUnifiedDiff (''a'' @ [newline] @ ''b'' @ [newline] @ ''c'')
        (''a'' @ [newline] @ ''x'' @ [newline] @ ''c'') ''f.ts''))
     = [\<lparr>oldStart = 1, oldLines = 3, newStart = 1, newLines = 3,
         lines = ['' a'', ''-b'', ''+x'', '' c'']\<rparr>]
   \<and> split_lines (''a'' @ [newline] @ ''Z'' @ [newline] @ ''c'') ! 1
       \<noteq> split_lines (''a'' @ [newline] @ ''b'' @ [newline] @ ''c'') ! 1
   \<and> applyChanges \<lparr>createOk = True, openError = [], editOk = True, saveError = None,
                    showError = None, lineCount = (\<lambda>t. length (split_lines t)),
                    lineAtError = []\<rparr>
        [''f.ts'' \<mapsto> ''a'' @ [newline] @ ''Z'' @ [newline] @ ''c''] ''f.ts''
        (''a'' @ [newline] @ ''x'' @ [newline] @ ''c'')
     = ([''f.ts'' \<mapsto> ''a'' @ [newline] @ ''x'' @ [newline] @ ''c''],
        Inr \<lparr>added = [1], removed = []\<rparr>)"
proof -
  have a: "extractHunks (split_lines (generateUnifiedDiff (''a'' @ [newline] @ ''b'' @ [newline] @ ''c'')
        (''a'' @ [newline] @ ''x'' @ [newline] @ ''c'') ''f.ts''))
     = [\<lparr>oldStart = 1, oldLines = 3, newStart = 1, newLines = 3,
         lines = ['' a'', ''-b'', ''+x'', '' c'']\<rparr>]"
    by code_simp
  have b: "split_lines (''a'' @ [newline] @ ''Z'' @ [newline] @ ''c'') ! 1
       \<noteq> split_lines (''a'' @ [newline] @ ''b'' @ [newline] @ ''c'') ! 1"
    by code_simp
  have c: "calculateChangedLines (''a'' @ [newline] @ ''Z'' @ [newline] @ ''c'')
             (''a'' @ [newline] @ ''x'' @ [newline] @ ''c'') = \<lparr>added = [1], removed = []\<rparr>"
    by code_simp
  have d: "applyChanges \<lparr>createOk = True, openError = [], editOk = True, saveError = None,
                    showError = None, lineCount = (\<lambda>t. length (split_lines t)),
                    lineAtError = []\<rparr>
        [''f.ts'' \<mapsto> ''a'' @ [newline] @ ''Z'' @ [newline] @ ''c''] ''f.ts''
        (''a'' @ [newline] @ ''x'' @ [newline] @ ''c'')
     = ([''f.ts'' \<mapsto> ''a'' @ [newline] @ ''x'' @ [newline] @ ''c''],
        Inr \<lparr>added = [1], removed = []\<rparr>)"
    using c
    by (simp add: applyChanges_def replace_range_def Let_def highlightChangedLines_def)
  from a b d show ?thesis by blast
qed

text \<open>
  Claim C3, as the code has it: \<open>applyChanges\<close> compares the live document with
  nothing. Whether the call fails, and with which error, is the same for every content of
  the live document (for an editor that counts at least the lines that \<open>split('\n')\<close>
  counts): it is decided by the editor's answers alone. When the editor applies the edit,
  the document holds the new text after the call, whatever it held before; when the editor
  refuses the edit, the call fails and the document is unchanged.
\<close>

theorem apply_ignores_live_text:
  assumes "length (split_lines n) \<le> lineCount h n"
  shows "outcome (snd (applyChanges h (ws(path \<mapsto> live1)) path n))
           = outcome (snd (applyChanges h (ws(path \<mapsto> live2)) path n))
       \<and> (editOk h \<longrightarrow> fst (applyChanges h (ws(path \<mapsto> live1)) path n) = ws(path \<mapsto> n))
       \<and> (\<not> editOk h \<longrightarrow>
            applyChanges h (ws(path \<mapsto> live1)) path n
              = (ws(path \<mapsto> live1), Inl (failed ''Failed to apply workspace edit'')))"
proof -
  have a: "(ws(path \<mapsto> live1)) path = Some live1" and b: "(ws(path \<mapsto> live2)) path = Some live2"
    by simp_all
  note x = applyChanges_existing [where ws = "ws(path \<mapsto> live1)" and path = path
      and live = live1 and h = h and n = n]
  note y = applyChanges_existing [where ws = "ws(path \<mapsto> live2)" and path = path
      and live = live2 and h = h and n = n]
  show ?thesis
    using highlight_returns [OF assms, of live1] highlight_returns [OF assms, of live2] x y
    by (simp add: outcome_def split: option.splits)
qed

theorem apply_ignores_live_text_witness:
  "let h = \<lparr>createOk = True, openError = [], editOk = True, saveError = Some ''disk full'',
             showError = None, lineCount = (\<lambda>t. length (split_lines t)), lineAtError = []\<rparr>;
       n = ''a'' @ [newline] @ ''x'' @ [newline] @ ''c'';
       live1 = ''a'' @ [newline] @ ''b'' @ [newline] @ ''c'';
       live2 = ''Z''
   in length (split_lines n) \<le> lineCount h n
    \<and> editOk h
    \<and> outcome (snd (applyChanges h [''f.ts'' \<mapsto> live1] ''f.ts'' n))
        = outcome (snd (applyChanges h [''f.ts'' \<mapsto> live2] ''f.ts'' n))
    \<and> outcome (snd (applyChanges h [''f.ts'' \<mapsto> live2] ''f.ts'' n))
        = Some (Error ''Failed to apply changes: disk full'')
    \<and> fst (applyChanges h [''f.ts'' \<mapsto> live2] ''f.ts'' n) = [''f.ts'' \<mapsto> n]
    \<and> \<not> editOk (h\<lparr>editOk := False\<rparr>)
    \<and> applyChanges (h\<lparr>editOk := False\<rparr>) [''f.ts'' \<mapsto> live2] ''f.ts'' n
        = ([''f.ts'' \<mapsto> live2],
           Inl (Error ''Failed to apply changes: Failed to apply workspace edit''))"
proof -
  let ?h = "\<lparr>createOk = True, openError = [], editOk = True, saveError = Some ''disk full'',
             showError = None, lineCount = (\<lambda>t. length (split_lines t)), lineAtError = []\<rparr>"
  let ?n = "''a'' @ [newline] @ ''x'' @ [newline] @ ''c''"
  let ?l1 = "''a'' @ [newline] @ ''b'' @ [newline] @ ''c''"
  let ?l2 = "''Z''"
  have a: "length (split_lines ?n) \<le> lineCount ?h ?n" "editOk ?h" "\<not> editOk (?h\<lparr>editOk := False\<rparr>)"
    "length (split_lines ?n) \<le> lineCount (?h\<lparr>editOk := False\<rparr>) ?n"
    by simp_all
  note t1 = apply_ignores_live_text [where h = ?h and n = ?n and ws = Map.empty
      and path = "''f.ts''" and ?live1.0 = ?l1 and ?live2.0 = ?l2]
  note t2 = apply_ignores_live_text [where h = "?h\<lparr>editOk := False\<rparr>" and n = ?n and ws = Map.empty
      and path = "''f.ts''" and ?live1.0 = ?l2 and ?live2.0 = ?l1]
  note t3 = apply_ignores_live_text [where h = ?h and n = ?n and ws = Map.empty
      and path = "''f.ts''" and ?live1.0 = ?l2 and ?live2.0 = ?l1]
  have o: "outcome (snd (applyChanges ?h [''f.ts'' \<mapsto> ?l2] ''f.ts'' ?n))
        = Some (Error ''Failed to apply changes: disk full'')"
    by (simp add: applyChanges_def Let_def outcome_def failed_def)
  have e1: "outcome (snd (applyChanges ?h [''f.ts'' \<mapsto> ?l1] ''f.ts'' ?n))
        = outcome (snd (applyChanges ?h [''f.ts'' \<mapsto> ?l2] ''f.ts'' ?n))"
    using t1 a by blast
  have e2: "fst (applyChanges ?h [''f.ts'' \<mapsto> ?l2] ''f.ts'' ?n) = [''f.ts'' \<mapsto> ?n]"
    using t3 a by blast
  have e3: "applyChanges (?h\<lparr>editOk := False\<rparr>) [''f.ts'' \<mapsto> ?l2] ''f.ts'' ?n
        = ([''f.ts'' \<mapsto> ?l2],
           Inl (Error ''Failed to apply changes: Failed to apply workspace edit''))"
    using t2 a by (simp add: failed_def)
  from a e1 o e2 e3 show ?thesis unfolding Let_def by blast
qed

section \<open>Properties of the step store\<close>

lemma fire_fields [simp]:
  "objects (fire s) = objects s" "arrays (fire s) = arrays s" "steps (fire s) = steps s"
  "next_ref (fire s) = next_ref s" "fired (fire s) = fired s @ [snapshot s]"
  by (simp_all add: fire_def)

lemma current_steps_fire [simp]: "current_steps (fire s) = current_steps s"
  by (simp add: current_steps_def)

lemma snapshot_fire [simp]: "snapshot (fire s) = snapshot s"
  by (simp add: snapshot_def)

lemma addStep_fires:
  "fired (addStep r s) = fired s @ [snapshot (addStep r s)]
   \<and> current_steps (addStep r s) = current_steps s @ [r]"
  by (simp add: addStep_def current_steps_def)

lemma updateStepStatus_fires:
  "getStepById i s = Some r \<Longrightarrow>
   fired (updateStepStatus i st s) = fired s @ [snapshot (updateStepStatus i st s)]
   \<and> objects (updateStepStatus i st s) r
       = map_option (set_property ''status'' (Str (status_string st))) (objects s r)
   \<and> current_steps (updateStepStatus i st s) = current_steps s"
  by (simp add: updateStepStatus_def current_steps_def)

lemma updateStepStatus_unknown: "getStepById i s = None \<Longrightarrow> updateStepStatus i st s = s"
  by (simp add: updateStepStatus_def)

lemma removeStep_fires:
  "findIndex (has_id s i) (current_steps s) = Some k \<Longrightarrow>
   fired (removeStep i s) = fired s @ [snapshot (removeStep i s)]
   \<and> current_steps (removeStep i s) = take k (current_steps s) @ drop (k + 1) (current_steps s)"
  by (simp add: removeStep_def current_steps_def)

lemma removeStep_unknown:
  "findIndex (has_id s i) (current_steps s) = None \<Longrightarrow> removeStep i s = s"
  by (simp add: removeStep_def)

lemma clear_fires:
  "fired (clear s) = fired s @ [snapshot (clear s)] \<and> current_steps (clear s) = []"
  by (simp add: clear_def new_array_def current_steps_def)

lemma new_objects_snapshot:
  "new_objects xs s = (rs, s1) \<Longrightarrow> map (objects s1) rs = map Some xs"
  by (auto simp: new_objects_def Let_def intro!: nth_equalityI)

lemma revive_all_Returns:
  "list_all (revivable newDate) es \<Longrightarrow> \<exists>xs. revive_all newDate es = Returns xs"
proof (induction es)
  case Nil
  show ?case by simp
next
  case (Cons e es)
  then obtain xs where "revive_all newDate es = Returns xs" by auto
  moreover from Cons.prems obtain x where "revive newDate e = Returns x"
    by (cases "newDate (timestamp_of e)") (auto simp: revivable_def revive_def)
  ultimately show ?case by simp
qed

lemma revive_all_Throws:
  "\<not> list_all (revivable newDate) es \<Longrightarrow> revive_all newDate es = Throws"
proof (induction es)
  case Nil
  then show ?case by simp
next
  case (Cons e es)
  show ?case
  proof (cases "revivable newDate e")
    case True
    with Cons have "revive_all newDate es = Throws" by simp
    then show ?thesis by (simp split: completion.splits)
  next
    case False
    then have "revive newDate e = Throws"
      by (auto simp: revivable_def revive_def)
    then show ?thesis by simp
  qed
qed

lemma importFromJSON_fires:
  assumes "revive_all newDate elems = Returns xs"
  shows "\<exists>s'. importFromJSON newDate (Parsed (Arr elems)) s = (None, s')
           \<and> fired s' = fired s @ [snapshot s'] \<and> snapshot s' = map Some xs"
proof -
  obtain rs s1 where n: "new_objects xs s = (rs, s1)" by (cases "new_objects xs s")
  obtain a s2 where m: "new_array rs s1 = (a, s2)" by (cases "new_array rs s1")
  have "snapshot (s2\<lparr>steps := a\<rparr>) = map (objects s1) rs"
    using m by (auto simp: new_array_def snapshot_def current_steps_def)
  then have "snapshot (s2\<lparr>steps := a\<rparr>) = map Some xs"
    using new_objects_snapshot [OF n] by simp
  moreover have "fired (s2\<lparr>steps := a\<rparr>) = fired s"
    using n m by (auto simp: new_array_def new_objects_def Let_def)
  ultimately show ?thesis
    using assms n m by (simp add: importFromJSON_def)
qed

lemma importFromJSON_throws:
  "\<not> list_all (revivable newDate) elems \<Longrightarrow>
   importFromJSON newDate (Parsed (Arr elems)) s
     = (Some (Error ''Invalid JSON format for steps import''), s)"
  by (simp add: importFromJSON_def revive_all_Throws)

lemma importFromJSON_other:
  "importFromJSON newDate SyntaxError s
     = (Some (Error ''Invalid JSON format for steps import''), s)"
  "\<not> isArray v \<Longrightarrow> importFromJSON newDate (Parsed v) s = (None, s)"
  by (simp_all add: importFromJSON_def isArray_def split: jsvalue.splits)

lemma queries_silent:
  "fired (snd (getAllSteps s)) = fired s"
  "fired (snd (getStepsForFile p s)) = fired s"
  "fired (snd (getStepsByStatus st s)) = fired s"
  by (simp_all add: getAllSteps_def getStepsForFile_def getStepsByStatus_def new_array_def)

lemma allocated_new: "allocated new_StepStore"
  by (simp add: allocated_def new_StepStore_def)

lemma allocated_fire: "allocated (fire s) = allocated s"
  by (simp add: allocated_def fire_def)

lemma allocated_new_array: "allocated s \<Longrightarrow> allocated (snd (new_array xs s))"
  by (simp add: allocated_def new_array_def)

lemma allocated_preserved:
  assumes "allocated s"
  shows "allocated (addStep r s)" and "allocated (updateStepStatus i st s)"
    and "allocated (removeStep i s)" and "allocated (clear s)"
    and "allocated (snd (getAllSteps s))" and "allocated (snd (getStepsForFile p s))"
    and "allocated (snd (getStepsByStatus st s))" and "allocated (snd (getChildren e s))"
    and "allocated (snd (importFromJSON newDate j s))"
proof -
  show "allocated (addStep r s)"
    using assms by (simp add: addStep_def allocated_fire) (simp add: allocated_def)
  show "allocated (updateStepStatus i st s)"
    using assms
    by (cases "getStepById i s") (simp_all add: updateStepStatus_def allocated_fire,
        simp add: allocated_def)
  show "allocated (removeStep i s)"
    using assms
    by (cases "findIndex (has_id s i) (current_steps s)")
       (simp_all add: removeStep_def allocated_fire, simp add: allocated_def)
  show "allocated (clear s)"
    by (simp add: clear_def new_array_def allocated_fire) (simp add: allocated_def)
  show "allocated (snd (getAllSteps s))" "allocated (snd (getStepsForFile p s))"
    "allocated (snd (getStepsByStatus st s))"
    using assms
    by (simp_all add: getAllSteps_def getStepsForFile_def getStepsByStatus_def allocated_new_array)
  show "allocated (snd (getChildren e s))"
    using assms
    by (cases e)
       (simp_all add: getChildren_def getAllSteps_def new_array_def reverse_in_place_def
          allocated_def)
  show "allocated (snd (importFromJSON newDate j s))"
    using assms
    by (auto simp: importFromJSON_def new_objects_def new_array_def Let_def allocated_fire
        allocated_def fire_def split: parsed.splits jsvalue.splits completion.splits)
qed

subsection \<open>Change notification\<close>

text \<open>
  Claim C9 says that every mutating operation, \<open>importFromJSON\<close> of an array among
  them, fires the change event exactly once. For the array \<open>[null]\<close> the callback of
  \<open>map\<close> throws, \<open>importFromJSON\<close> fails with its \<open>Error\<close>, the store is as it was
  and nothing is fired.
\<close>

theorem mutations_fire_once_counterexample:
  "importFromJSON (\<lambda>_. Returns None) (Parsed (Arr [Null])) new_StepStore
     = (Some (Error ''Invalid JSON format for steps import''), new_StepStore)"
  by (simp add: importFromJSON_def revive_def)

text \<open>
  Claim C9, as the code has it: \<open>addStep\<close>, \<open>updateStepStatus\<close> on an existing
  id, \<open>removeStep\<close> on an existing id, \<open>clear\<close>, and \<open>importFromJSON\<close> of an array
  on every element of which the callback of \<open>map\<close> returns (no element is \<open>null\<close>,
  and \<open>new Date\<close> does not throw on the \<open>timestamp\<close> of any) fire the event exactly
  once, and the listener sees the store as it is after the change. \<open>importFromJSON\<close>
  of any other array, or of text that is not JSON, fails, leaves the store unchanged and
  fires nothing; \<open>importFromJSON\<close> of a value that is not an array,
  \<open>updateStepStatus\<close> and \<open>removeStep\<close> on an unknown id change nothing and fire
  nothing; the queries fire nothing.
\<close>

theorem mutations_fire_once:
  "fired (addStep r s) = fired s @ [snapshot (addStep r s)]
   \<and> current_steps (addStep r s) = current_steps s @ [r]
   \<and> (getStepById i s = Some r \<longrightarrow>
        fired (updateStepStatus i st s) = fired s @ [snapshot (updateStepStatus i st s)]
        \<and> objects (updateStepStatus i st s) r
            = map_option (set_property ''status'' (Str (status_string st))) (objects s r))
   \<and> (findIndex (has_id s i) (current_steps s) = Some k \<longrightarrow>
        fired (removeStep i s) = fired s @ [snapshot (removeStep i s)]
        \<and> current_steps (removeStep i s)
            = take k (current_steps s) @ drop (k + 1) (current_steps s))
   \<and> fired (clear s) = fired s @ [snapshot (clear s)]
   \<and> current_steps (clear s) = []
   \<and> (list_all (revivable newDate) elems \<longrightarrow>
        (\<exists>xs s'. revive_all newDate elems = Returns xs
           \<and> importFromJSON newDate (Parsed (Arr elems)) s = (None, s')
           \<and> fired s' = fired s @ [snapshot s'] \<and> snapshot s' = map Some xs))
   \<and> (\<not> list_all (revivable newDate) elems \<longrightarrow>
        importFromJSON newDate (Parsed (Arr elems)) s
          = (Some (Error ''Invalid JSON format for steps import''), s))
   \<and> importFromJSON newDate SyntaxError s
       = (Some (Error ''Invalid JSON format for steps import''), s)
   \<and> (\<not> isArray v \<longrightarrow> importFromJSON newDate (Parsed v) s = (None, s))
   \<and> (getStepById i s = None \<longrightarrow> updateStepStatus i st s = s)
   \<and> (findIndex (has_id s i) (current_steps s) = None \<longrightarrow> removeStep i s = s)
   \<and> fired (snd (getAllSteps s)) = fired s
   \<and> fired (snd (getStepsForFile p s)) = fired s
   \<and> fired (snd (getStepsByStatus st s)) = fired s"
proof -
  have imp: "list_all (revivable newDate) elems \<longrightarrow>
        (\<exists>xs s'. revive_all newDate elems = Returns xs
           \<and> importFromJSON newDate (Parsed (Arr elems)) s = (None, s')
           \<and> fired s' = fired s @ [snapshot s'] \<and> snapshot s' = map Some xs)"
  proof
    assume "list_all (revivable newDate) elems"
    then obtain xs where xs: "revive_all newDate elems = Returns xs"
      using revive_all_Returns by blast
    with importFromJSON_fires [OF xs, of s]
    show "\<exists>xs s'. revive_all newDate elems = Returns xs
           \<and> importFromJSON newDate (Parsed (Arr elems)) s = (None, s')
           \<and> fired s' = fired s @ [snapshot s'] \<and> snapshot s' = map Some xs"
      by blast
  qed
  show ?thesis
    using addStep_fires [of r s] updateStepStatus_fires [of i s r st]
      removeStep_fires [of s i k] clear_fires [of s] imp importFromJSON_throws [of newDate elems s]
      importFromJSON_other
      updateStepStatus_unknown [of i s st] removeStep_unknown [of s i]
    by (simp add: queries_silent)
qed

theorem mutations_fire_once_witness:
  "let t = step_object \<lparr>step_id = ''s1'', timestamp = Some 0, filePath = ''f.ts'',
             diff = \<lparr>original = ''a'', modified = ''b''\<rparr>, model = ''m'', status = pending,
             description = None\<rparr>;
       s = \<lparr>objects = (\<lambda>_. None)(7 := Some t), arrays = (\<lambda>_. [])(0 := [7]), next_ref = 8,
             steps = 0, fired = []\<rparr>;
       newDate = (\<lambda>v. case v of Some (Obj _) \<Rightarrow> Throws | _ \<Rightarrow> Returns None);
       good = [Obj [(''id'', Str ''s9'')], Str ''ab'', Bool True];
       bad = [Obj [(''timestamp'', Obj [(''toString'', Bool False)])]]
   in getStepById ''s1'' s = Some 7
    \<and> fired (updateStepStatus ''s1'' accepted s)
        = [[Some (set_property ''status'' (Str ''accepted'') t)]]
    \<and> findIndex (has_id s ''s1'') (current_steps s) = Some 0
    \<and> fired (removeStep ''s1'' s) = [[]]
    \<and> list_all (revivable newDate) good
    \<and> fired (snd (importFromJSON newDate (Parsed (Arr good)) s))
        = [[Some [(''id'', Str ''s9''), (''timestamp'', Date None)],
            Some [(''0'', Str ''a''), (''1'', Str ''b''), (''timestamp'', Date None)],
            Some [(''timestamp'', Date None)]]]
    \<and> \<not> list_all (revivable newDate) bad
    \<and> importFromJSON newDate (Parsed (Arr bad)) s
        = (Some (Error ''Invalid JSON format for steps import''), s)
    \<and> \<not> isArray (Obj [])
    \<and> importFromJSON newDate (Parsed (Obj [])) s = (None, s)
    \<and> getStepById ''s2'' s = None
    \<and> updateStepStatus ''s2'' accepted s = s
    \<and> findIndex (has_id s ''s2'') (current_steps s) = None
    \<and> removeStep ''s2'' s = s"
proof -
  let ?t = "step_object \<lparr>step_id = ''s1'', timestamp = Some 0, filePath = ''f.ts'',
             diff = \<lparr>original = ''a'', modified = ''b''\<rparr>, model = ''m'', status = pending,
             description = None\<rparr>"
  let ?s = "\<lparr>objects = (\<lambda>_. None)(7 := Some ?t), arrays = (\<lambda>_. [])(0 := [7]), next_ref = 8,
             steps = 0, fired = []\<rparr> :: StepStore"
  let ?d = "(\<lambda>v. case v of Some (Obj _) \<Rightarrow> Throws | _ \<Rightarrow> Returns None) :: date_constructor"
  let ?good = "[Obj [(''id'', Str ''s9'')], Str ''ab'', Bool True]"
  let ?bad = "[Obj [(''timestamp'', Obj [(''toString'', Bool False)])]]"
  have c: "current_steps ?s = [7]" by (simp add: current_steps_def)
  have g1: "getStepById ''s1'' ?s = Some 7"
    by (simp add: getStepById_def current_steps_def has_id_def property_is_def get_property_def
        step_object_def)
  have g2: "getStepById ''s2'' ?s = None"
    by (simp add: getStepById_def current_steps_def has_id_def property_is_def get_property_def
        step_object_def)
  have f1: "findIndex (has_id ?s ''s1'') (current_steps ?s) = Some 0"
    by (simp add: current_steps_def has_id_def property_is_def get_property_def step_object_def)
  have f2: "findIndex (has_id ?s ''s2'') (current_steps ?s) = None"
    by (simp add: current_steps_def has_id_def property_is_def get_property_def step_object_def)
  have n1: "list_all (revivable ?d) ?good"
    by (simp add: revivable_def timestamp_of_def)
  have n2: "\<not> list_all (revivable ?d) ?bad"
    by (simp add: revivable_def timestamp_of_def)
  have n3: "\<not> isArray (Obj [])" by (simp add: isArray_def)
  have rv: "revive_all ?d ?good
      = Returns [[(''id'', Str ''s9''), (''timestamp'', Date None)],
            [(''0'', Str ''a''), (''1'', Str ''b''), (''timestamp'', Date None)],
            [(''timestamp'', Date None)]]"
    by code_simp
  note t1 = mutations_fire_once [where s = ?s and i = "''s1''" and r = 7 and k = 0
      and st = accepted and elems = ?good and newDate = ?d and p = "''f.ts''" and v = "Obj []"]
  note t2 = mutations_fire_once [where s = ?s and i = "''s2''" and elems = ?bad
      and st = accepted and r = 7 and k = 0 and newDate = ?d and p = "''f.ts''" and v = "Obj []"]
  have u: "fired (updateStepStatus ''s1'' accepted ?s)
        = [[Some (set_property ''status'' (Str ''accepted'') ?t)]]"
    using t1 g1 by (simp add: snapshot_def updateStepStatus_def current_steps_def)
  have r: "fired (removeStep ''s1'' ?s) = [[]]"
    using t1 f1 by (simp add: snapshot_def removeStep_def current_steps_def)
  have i1: "fired (snd (importFromJSON ?d (Parsed (Arr ?good)) ?s))
        = [[Some [(''id'', Str ''s9''), (''timestamp'', Date None)],
            Some [(''0'', Str ''a''), (''1'', Str ''b''), (''timestamp'', Date None)],
            Some [(''timestamp'', Date None)]]]"
    using t1 n1 rv by auto
  have i2: "importFromJSON ?d (Parsed (Arr ?bad)) ?s
        = (Some (Error ''Invalid JSON format for steps import''), ?s)"
    using t2 n2 by blast
  have i3: "importFromJSON ?d (Parsed (Obj [])) ?s = (None, ?s)"
    using t2 n3 by blast
  have u2: "updateStepStatus ''s2'' accepted ?s = ?s"
    using t2 g2 by blast
  have r2: "removeStep ''s2'' ?s = ?s"
    using t2 f2 by blast
  from g1 u f1 r n1 i1 n2 i2 n3 i3 g2 u2 f2 r2 show ?thesis unfolding Let_def by blast
qed

subsection \<open>getAllSteps returns a copy\<close>



end
